theory Spec2Isabelle
  imports Main
begin

section \<open>The job table of tsh\<close>

text \<open>
  The shell keeps its jobs in a global array \<^verbatim>\<open>struct job_t jobs[MAXJOBS]\<close> and a
  global counter \<^verbatim>\<open>nextjid\<close>. A slot is empty when its \<^verbatim>\<open>pid\<close> is 0. The array is a
  list of records; a pointer \<^verbatim>\<open>struct job_t*\<close> into the array is the index of the slot,
  and \<^verbatim>\<open>NULL\<close> is \<open>None\<close>. The numeric constants of the source are abbreviations.
\<close>

abbreviation (input) MAXLINE :: nat where "MAXLINE \<equiv> 1024"
abbreviation (input) MAXJOBS :: nat where "MAXJOBS \<equiv> 16"

datatype jstate = UNDEF | FG | BG | ST

abbreviation (input) EXIT :: int where "EXIT \<equiv> 1"
abbreviation (input) INTR :: int where "INTR \<equiv> 2"
abbreviation (input) TSTP :: int where "TSTP \<equiv> 3"

record job_t =
  pid :: int
  jid :: int
  state :: jstate
  cmdline :: string

text \<open>
  The global variables of the program, together with what the process owns in the
  kernel and what it has done to the outside: the \<^verbatim>\<open>errno\<close> cell, the mask of blocked
  signals, the lines written to the output stream (\<^verbatim>\<open>main\<close> joins \<^verbatim>\<open>stderr\<close> to
  \<^verbatim>\<open>stdout\<close>), and the calls of \<^verbatim>\<open>kill\<close> as pairs of target and signal.
\<close>

record shell =
  jobs :: "job_t list"
  nextjid :: int
  verbose :: bool
  flag :: int
  errno :: int
  sigmask :: "int set"
  out :: "string list"
  sent :: "(int \<times> int) list"

subsection \<open>Formatting of \<^verbatim>\<open>%d\<close>\<close>

function dec_nat :: "nat \<Rightarrow> string" where
  "dec_nat n =
     (if n < 10 then [''0123456789'' ! n]
      else dec_nat (n div 10) @ [''0123456789'' ! (n mod 10)])"
  by pat_completeness auto
termination
  by (relation "measure (\<lambda>n. n)") auto

declare dec_nat.simps [simp del]

definition dec :: "int \<Rightarrow> string" where
  "dec i = (if i < 0 then CHR ''-'' # dec_nat (nat (- i)) else dec_nat (nat i))"

subsection \<open>Helper routines that manipulate the job list\<close>

definition clearjob :: "job_t \<Rightarrow> job_t" where
  "clearjob job = job\<lparr>pid := 0, jid := 0, state := UNDEF, cmdline := []\<rparr>"

definition initjobs :: "job_t list \<Rightarrow> job_t list" where
  "initjobs js = fold (\<lambda>i js. js[i := clearjob (js ! i)]) [0..<MAXJOBS] js"

definition maxjid :: "job_t list \<Rightarrow> int" where
  "maxjid js = fold (\<lambda>i m. if jid (js ! i) > m then jid (js ! i) else m) [0..<MAXJOBS] 0"

text \<open>
  \<^verbatim>\<open>addjob\<close> returns 1 and fills the first slot whose \<^verbatim>\<open>pid\<close> is 0, or returns 0.
  The result is the returned \<^verbatim>\<open>int\<close> and the globals after the call.

  The field \<^verbatim>\<open>cmdline\<close> is an array of \<^verbatim>\<open>MAXLINE\<close> characters and \<^verbatim>\<open>addjob\<close> fills it
  with \<^verbatim>\<open>strcpy\<close>, without a test of the length. The model stores the line as it is:
  this is what the code does for a line of fewer than \<^verbatim>\<open>MAXLINE\<close> characters, which is
  every line that \<^verbatim>\<open>eval\<close> passes, since \<^verbatim>\<open>main\<close> reads it with
  \<^verbatim>\<open>fgets(cmdline, MAXLINE, stdin)\<close>. For a longer line the code writes past the end of
  the field, into the slot that follows; the model does not follow it there, and what
  is proved of the other slots is proved for lines shorter than \<^verbatim>\<open>MAXLINE\<close>.
\<close>

definition addjob :: "shell \<Rightarrow> int \<Rightarrow> jstate \<Rightarrow> string \<Rightarrow> int \<times> shell" where
  "addjob s p st cl =
     (if p < 1 then (0, s)
      else case find (\<lambda>i. pid (jobs s ! i) = 0) [0..<MAXJOBS] of
        Some i \<Rightarrow>
          let j = (jobs s ! i)\<lparr>pid := p, state := st, jid := nextjid s\<rparr>;
              n = nextjid s + 1;
              n' = (if n > int MAXJOBS then 1 else n);
              j' = j\<lparr>cmdline := cl\<rparr>;
              s' = s\<lparr>jobs := (jobs s)[i := j'], nextjid := n'\<rparr>
          in (1, if verbose s
                 then s'\<lparr>out := out s' @
                        [''Added job ['' @ dec (jid j') @ ''] '' @ dec (pid j') @ '' '' @
                         cmdline j' @ [CHR 0x0A]]\<rparr>
                 else s')
      | None \<Rightarrow> (0, s\<lparr>out := out s @ [''Tried to create too many jobs'' @ [CHR 0x0A]]\<rparr>))"

text \<open>\<^verbatim>\<open>deletejob\<close> clears the first slot that holds the pid and resets the counter.\<close>

definition deletejob :: "shell \<Rightarrow> int \<Rightarrow> int \<times> shell" where
  "deletejob s p =
     (if p < 1 then (0, s)
      else case find (\<lambda>i. pid (jobs s ! i) = p) [0..<MAXJOBS] of
        Some i \<Rightarrow>
          let js = (jobs s)[i := clearjob (jobs s ! i)]
          in (1, s\<lparr>jobs := js, nextjid := maxjid js + 1\<rparr>)
      | None \<Rightarrow> (0, s))"

definition fgpid :: "job_t list \<Rightarrow> int" where
  "fgpid js =
     (case find (\<lambda>i. state (js ! i) = FG) [0..<MAXJOBS] of
        Some i \<Rightarrow> pid (js ! i)
      | None \<Rightarrow> 0)"

definition getjobpid :: "job_t list \<Rightarrow> int \<Rightarrow> nat option" where
  "getjobpid js p = (if p < 1 then None else find (\<lambda>i. pid (js ! i) = p) [0..<MAXJOBS])"

definition getjobjid :: "job_t list \<Rightarrow> int \<Rightarrow> nat option" where
  "getjobjid js n = (if n < 1 then None else find (\<lambda>i. jid (js ! i) = n) [0..<MAXJOBS])"

definition pid2jid :: "job_t list \<Rightarrow> int \<Rightarrow> int" where
  "pid2jid js p =
     (if p < 1 then 0
      else case find (\<lambda>i. pid (js ! i) = p) [0..<MAXJOBS] of
        Some i \<Rightarrow> jid (js ! i)
      | None \<Rightarrow> 0)"

subsection \<open>Signals, wait statuses and library calls\<close>

text \<open>
  Signal and error numbers are those of Linux. A wait status is what \<^verbatim>\<open>waitpid\<close> stores
  for a child that exited, was killed by a signal, or was stopped by a signal. The macro
  \<^verbatim>\<open>WTERMSIG\<close> reads the low seven bits of the status word, which are 0 for an exit, the
  signal for a kill and \<^verbatim>\<open>0x7f\<close> for a stop; \<^verbatim>\<open>WIFSTOPPED\<close> holds for a stop only.
\<close>

abbreviation (input) SIGINT :: int where "SIGINT \<equiv> 2"
abbreviation (input) SIGCHLD :: int where "SIGCHLD \<equiv> 17"
abbreviation (input) SIGCONT :: int where "SIGCONT \<equiv> 18"
abbreviation (input) SIGTSTP :: int where "SIGTSTP \<equiv> 20"
abbreviation (input) ECHILD :: int where "ECHILD \<equiv> 10"
abbreviation (input) ERANGE :: int where "ERANGE \<equiv> 34"

datatype wstatus = WExited int | WSignaled int | WStopped int

fun WTERMSIG :: "wstatus \<Rightarrow> int" where
  "WTERMSIG (WExited c) = 0"
| "WTERMSIG (WSignaled n) = n"
| "WTERMSIG (WStopped n) = 127"

fun WIFSTOPPED :: "wstatus \<Rightarrow> bool" where
  "WIFSTOPPED (WStopped n) = True"
| "WIFSTOPPED _ = False"

text \<open>
  \<^verbatim>\<open>strtol(s, NULL, 10)\<close>: white space, an optional sign, then decimal digits; no digits
  give 0; a value outside \<^verbatim>\<open>long\<close> is clamped and reported (the caller then finds
  \<^verbatim>\<open>ERANGE\<close> in \<^verbatim>\<open>errno\<close>). The result is stored in an \<^verbatim>\<open>int\<close>, which keeps the low
  32 bits.
\<close>

definition isspace :: "char \<Rightarrow> bool" where
  "isspace c = (c \<in> set [CHR '' '', CHR 0x09, CHR 0x0A, CHR 0x0B, CHR 0x0C, CHR 0x0D])"

definition digit_of :: "char \<Rightarrow> nat option" where
  "digit_of c = map_of (zip ''0123456789'' [0..<10]) c"

definition strtol :: "string \<Rightarrow> int \<times> bool" where
  "strtol str =
     (let s1 = dropWhile isspace str;
          neg = (case s1 of c # r \<Rightarrow> c = CHR ''-'' | [] \<Rightarrow> False);
          s2 = (case s1 of c # r \<Rightarrow> if c = CHR ''-'' \<or> c = CHR ''+'' then r else s1 | [] \<Rightarrow> s1);
          ds = takeWhile (\<lambda>c. digit_of c \<noteq> None) s2;
          n = fold (\<lambda>c a. 10 * a + int (the (digit_of c))) ds 0;
          v = (if neg then - n else n)
      in if v > 2 ^ 63 - 1 then (2 ^ 63 - 1, True)
         else if v < - (2 ^ 63) then (- (2 ^ 63), True)
         else (v, False))"

definition to_int :: "int \<Rightarrow> int" where
  "to_int v = (v + 2 ^ 31) mod 2 ^ 32 - 2 ^ 31"

subsection \<open>The SIGCHLD handler\<close>

text \<open>
  A dereference of \<^verbatim>\<open>NULL\<close> ends the process; it is the one fault of the model.
\<close>

datatype fault = Segv

text \<open>
  \<^verbatim>\<open>waitpid(-1, &status, WNOHANG | WUNTRACED)\<close> is answered from the queue of children
  with an unreported change of status: the head of the queue, or, when the queue is
  empty, 0, or -1 with \<^verbatim>\<open>ECHILD\<close> when the shell has no child at all (\<open>nochld\<close>).
  The handler returns what is left of the queue and the globals.

  Every path through the body of the \<^verbatim>\<open>while\<close> loop ends in \<^verbatim>\<open>return\<close>, so the body runs
  at most once and the loop has no way back to its test: the function has no
  recursive call. The statements after the loop run only when the first \<^verbatim>\<open>waitpid\<close>
  reports no child.
\<close>

fun sigchld_handler ::
  "(int \<times> wstatus) list \<Rightarrow> bool \<Rightarrow> shell \<Rightarrow> fault + ((int \<times> wstatus) list \<times> shell)" where
  "sigchld_handler [] nochld s0 =
     (let prev = sigmask s0;
          s = s0\<lparr>sigmask := sigmask s0 \<union> {SIGCHLD, SIGINT, SIGTSTP}\<rparr>;
          olderrno = errno s;
          s = (if nochld then s\<lparr>errno := ECHILD\<rparr> else s)
      in Inr ([], s\<lparr>errno := olderrno, sigmask := prev\<rparr>))"
| "sigchld_handler ((p, status) # q) nochld s0 =
     (let prev = sigmask s0;
          s = s0\<lparr>sigmask := sigmask s0 \<union> {SIGCHLD, SIGINT, SIGTSTP}\<rparr>;
          olderrno = errno s
      in if p > 0 then
           (case getjobpid (jobs s) p of
              None \<Rightarrow> Inl Segv
            | Some i \<Rightarrow>
                let s = s\<lparr>jobs := (jobs s)[i := (jobs s ! i)\<lparr>state := ST\<rparr>]\<rparr>
                in if WTERMSIG status = SIGINT
                   then Inr (q, snd (deletejob (s\<lparr>flag := INTR\<rparr>) p))
                   else if WIFSTOPPED status
                   then Inr (q, s\<lparr>flag := TSTP\<rparr>)
                   else Inr (q, snd (deletejob (s\<lparr>flag := EXIT\<rparr>) p)))
         else Inr ((p, status) # q, s\<lparr>errno := olderrno, sigmask := prev\<rparr>))"

subsection \<open>The command loop as a machine\<close>

text \<open>
  The command loop runs \<^verbatim>\<open>eval\<close>, \<^verbatim>\<open>do_bgfg\<close> and \<^verbatim>\<open>waitfg\<close>, and the kernel may run
  the SIGCHLD handler between any two of their statements unless SIGCHLD is blocked.
  The control state of the loop is the statement it is about to execute, with the local
  variables that are live there. Statements that touch no global are joined to the
  next one that does, and a scan of the table by a helper routine counts as one
  statement. The line numbers are those of \<^verbatim>\<open>tsh.c\<close>. After \<^verbatim>\<open>fork\<close> only the
  parent is followed: the child is another process with its own copy of the table.
  In the parent \<^verbatim>\<open>invalidcmd\<close> is always 0, so \<^verbatim>\<open>addjob\<close> is always called.

  The arguments of a control state are the locals of the function, in the order
  \<^verbatim>\<open>prev\<close>, \<^verbatim>\<open>fginit\<close>, \<^verbatim>\<open>cmdline\<close>, \<^verbatim>\<open>pid\<close>, \<^verbatim>\<open>job\<close>, \<^verbatim>\<open>jid\<close> for \<^verbatim>\<open>eval\<close>;
  \<^verbatim>\<open>pid\<close>, \<^verbatim>\<open>job\<close>, \<^verbatim>\<open>jid\<close> for \<^verbatim>\<open>waitfg\<close>; and \<^verbatim>\<open>argv[0]\<close>, \<^verbatim>\<open>myjid\<close>, \<^verbatim>\<open>myjob\<close>,
  \<^verbatim>\<open>mypid\<close> for \<^verbatim>\<open>do_bgfg\<close>, each state keeping those it still needs. A pointer that
  may be \<^verbatim>\<open>NULL\<close> is a \<open>nat option\<close>; one that has been dereferenced is a \<open>nat\<close>.
  \<open>Exited\<close> carries the exit status of the shell; \<open>Crashed\<close> is the shell killed by
  a read through \<^verbatim>\<open>NULL\<close>.
\<close>

datatype pc =
    Prompt
  | Eval_block bool string
  | Eval_fork "int set" bool string
  | Eval_addjob "int set" bool string int
  | Eval_setmask "int set" int
  | Eval_getjob int
  | Eval_jid int "nat option"
  | Eval_state int nat int
  | Eval_print int nat int
  | Waitfg_getjob int
  | Waitfg_jid int "nat option"
  | Waitfg_check int int
  | Waitfg_loop int int
  | Waitfg_report int int
  | Bgfg_entry string "string list"
  | Bgfg_jid_lookup string int
  | Bgfg_jid_max string int "nat option"
  | Bgfg_jid_pid string int "nat option"
  | Bgfg_pid_lookup string int
  | Bgfg_pid_check string int "nat option"
  | Bgfg_pid_jid string int "nat option"
  | Bgfg_pid_state string int nat int
  | Bgfg_mode string int nat int
  | Fg_set nat int
  | Fg_cont int
  | Fg_wait
  | Bg_set int nat int
  | Bg_print int nat int
  | Bg_cont int
  | Exited int
  | Crashed

text \<open>
  What \<^verbatim>\<open>parseline\<close> and the name test of \<^verbatim>\<open>builtin_cmd\<close> make of a line of input:
  an empty line, \<^verbatim>\<open>quit\<close> (or the end of the input), \<^verbatim>\<open>jobs\<close>, a call of
  \<^verbatim>\<open>do_bgfg\<close> with \<^verbatim>\<open>argv[0]\<close> and the rest of the argument vector, or a program to
  launch with its argument vector, the background flag and the text of the line.
\<close>

datatype command =
    Blank
  | Quit
  | Jobs
  | Bgfg string "string list"
  | Launch "string list" bool string

definition print :: "string \<Rightarrow> shell \<Rightarrow> shell" where
  "print str s = s\<lparr>out := out s @ [str]\<rparr>"

definition kill :: "int \<Rightarrow> int \<Rightarrow> shell \<Rightarrow> shell" where
  "kill target sig s = s\<lparr>sent := sent s @ [(target, sig)]\<rparr>"

definition state_code :: "jstate \<Rightarrow> int" where
  "state_code st = (case st of UNDEF \<Rightarrow> 0 | FG \<Rightarrow> 1 | BG \<Rightarrow> 2 | ST \<Rightarrow> 3)"

definition listjobs :: "shell \<Rightarrow> shell" where
  "listjobs s =
     fold (\<lambda>i s.
        if pid (jobs s ! i) \<noteq> 0 then
          let s = print (''['' @ dec (jid (jobs s ! i)) @ ''] ('' @ dec (pid (jobs s ! i)) @ '') '') s;
              s = (case state (jobs s ! i) of
                     BG \<Rightarrow> print ''Running '' s
                   | FG \<Rightarrow> print ''Foreground '' s
                   | ST \<Rightarrow> print ''Stopped '' s
                   | UNDEF \<Rightarrow> print (''listjobs: Internal error: job['' @ dec (int i) @
                        ''].state='' @ dec (state_code (state (jobs s ! i))) @ '' '') s)
          in print (cmdline (jobs s ! i)) s
        else s) [0..<MAXJOBS] s"

fun step_pc :: "command \<Rightarrow> int \<Rightarrow> pc \<Rightarrow> shell \<Rightarrow> pc \<times> shell" where
  \<comment> \<open>main, lines 167-184, and eval, lines 220-230: read a line and dispatch\<close>
  "step_pc c f Prompt s =
     (case c of
        Blank \<Rightarrow> (Prompt, s)
      | Quit \<Rightarrow> (Exited 0, s)
      | Jobs \<Rightarrow> (Prompt, listjobs s)
      | Bgfg a0 args \<Rightarrow> (Bgfg_entry a0 args, s)
      | Launch argv bg cl \<Rightarrow> (Eval_block (\<not> bg) cl, s))"
  \<comment> \<open>eval, line 232: block SIGCHLD, saving the mask\<close>
| "step_pc c f (Eval_block fginit cl) s =
     (Eval_fork (sigmask s) fginit cl, s\<lparr>sigmask := sigmask s \<union> {SIGCHLD}\<rparr>)"
  \<comment> \<open>eval, lines 233-246: fork; the child (0) never comes back to the loop;
      \<^verbatim>\<open>unix_error\<close> prints its message (the text of \<^verbatim>\<open>strerror\<close> is left out) and exits\<close>
| "step_pc c f (Eval_fork prev fginit cl) s =
     (if f = 0 then (Exited 0, s)
      else if f < 0 then (Exited 1, print ''Fork Failed'' s)
      else (Eval_addjob prev fginit cl f, s))"
  \<comment> \<open>eval, lines 251-258\<close>
| "step_pc c f (Eval_addjob prev fginit cl p) s =
     (Eval_setmask prev p, snd (addjob s p (if fginit then FG else BG) cl))"
  \<comment> \<open>eval, line 261: restore the saved mask\<close>
| "step_pc c f (Eval_setmask prev p) s = (Eval_getjob p, s\<lparr>sigmask := prev\<rparr>)"
  \<comment> \<open>eval, line 264\<close>
| "step_pc c f (Eval_getjob p) s = (Eval_jid p (getjobpid (jobs s) p), s)"
  \<comment> \<open>eval, line 265: \<^verbatim>\<open>job->jid\<close>\<close>
| "step_pc c f (Eval_jid p job) s =
     (case job of
        None \<Rightarrow> (Crashed, s)
      | Some i \<Rightarrow> (Eval_state p i (jid (jobs s ! i)), s))"
  \<comment> \<open>eval, line 268\<close>
| "step_pc c f (Eval_state p i n) s =
     (if state (jobs s ! i) = FG then (Waitfg_getjob p, s) else (Eval_print p i n, s))"
  \<comment> \<open>eval, lines 276-283\<close>
| "step_pc c f (Eval_print p i n) s =
     (Prompt, print (''['' @ dec n @ ''] ('' @ dec p @ '') '' @ cmdline (jobs s ! i)) s)"
  \<comment> \<open>waitfg, line 480\<close>
| "step_pc c f (Waitfg_getjob p) s = (Waitfg_jid p (getjobpid (jobs s) p), s)"
  \<comment> \<open>waitfg, line 481: \<^verbatim>\<open>job->jid\<close>\<close>
| "step_pc c f (Waitfg_jid p job) s =
     (case job of
        None \<Rightarrow> (Crashed, s)
      | Some i \<Rightarrow> (Waitfg_check p (jid (jobs s ! i)), s))"
  \<comment> \<open>waitfg, lines 484-485\<close>
| "step_pc c f (Waitfg_check p n) s =
     (if fgpid (jobs s) = 0 then (Prompt, s) else (Waitfg_loop p n, s))"
  \<comment> \<open>waitfg, lines 488-489: one test of the loop, and one \<^verbatim>\<open>sleep(1)\<close> if it holds\<close>
| "step_pc c f (Waitfg_loop p n) s =
     (if p = fgpid (jobs s) then (Waitfg_loop p n, s) else (Waitfg_report p n, s))"
  \<comment> \<open>waitfg, lines 493-508\<close>
| "step_pc c f (Waitfg_report p n) s =
     (Prompt,
      if flag s = TSTP
      then print (''Job ['' @ dec n @ ''] ('' @ dec p @ '') is stopped by signal '' @
                  dec SIGTSTP @ [CHR 0x0A]) s
      else if flag s = INTR
      then print (''Job ['' @ dec n @ ''] ('' @ dec p @ '') is terminated by signal '' @
                  dec SIGINT @ [CHR 0x0A]) s
      else s)"
  \<comment> \<open>do_bgfg, lines 380-394 and 409-418\<close>
| "step_pc c f (Bgfg_entry a0 args) s =
     (case args of
        [] \<Rightarrow> (Prompt, print (a0 @ '' command requires PID or %jobid argument'' @ [CHR 0x0A]) s)
      | a1 # rest \<Rightarrow>
          if take 1 a1 = ''%'' then
            let (v, range) = strtol (tl a1)
            in (Bgfg_jid_lookup a0 (to_int v), if range then s\<lparr>errno := ERANGE\<rparr> else s)
          else
            let olderr = errno s;
                (v, range) = strtol a1;
                s = (if range then s\<lparr>errno := ERANGE\<rparr> else s);
                mypid = to_int v
            in if errno s \<noteq> 0 \<and> mypid = 0
               then (Prompt, (print (''argument must be a PID or %jobid'' @ [CHR 0x0A]) s)
                               \<lparr>errno := olderr\<rparr>)
               else (Bgfg_pid_lookup a0 mypid, s))"
  \<comment> \<open>do_bgfg, line 395\<close>
| "step_pc c f (Bgfg_jid_lookup a0 myjid) s =
     (Bgfg_jid_max a0 myjid (getjobjid (jobs s) myjid), s)"
  \<comment> \<open>do_bgfg, lines 399-402\<close>
| "step_pc c f (Bgfg_jid_max a0 myjid myjob) s =
     (if myjid > maxjid (jobs s)
      then (Prompt, print (''%'' @ dec myjid @ '' : No such job'' @ [CHR 0x0A]) s)
      else (Bgfg_jid_pid a0 myjid myjob, s))"
  \<comment> \<open>do_bgfg, line 404: \<^verbatim>\<open>myjob->pid\<close>\<close>
| "step_pc c f (Bgfg_jid_pid a0 myjid myjob) s =
     (case myjob of
        None \<Rightarrow> (Crashed, s)
      | Some i \<Rightarrow> (Bgfg_mode a0 myjid i (pid (jobs s ! i)), s))"
  \<comment> \<open>do_bgfg, line 420\<close>
| "step_pc c f (Bgfg_pid_lookup a0 mypid) s =
     (Bgfg_pid_check a0 mypid (getjobpid (jobs s) mypid), s)"
  \<comment> \<open>do_bgfg, lines 423-426\<close>
| "step_pc c f (Bgfg_pid_check a0 mypid myjob) s =
     (if getjobpid (jobs s) mypid = None
      then (Prompt, print (''('' @ dec mypid @ ''): No such process'' @ [CHR 0x0A]) s)
      else (Bgfg_pid_jid a0 mypid myjob, s))"
  \<comment> \<open>do_bgfg, line 428: \<^verbatim>\<open>myjob->jid\<close>\<close>
| "step_pc c f (Bgfg_pid_jid a0 mypid myjob) s =
     (case myjob of
        None \<Rightarrow> (Crashed, s)
      | Some i \<Rightarrow> (Bgfg_pid_state a0 (jid (jobs s ! i)) i mypid, s))"
  \<comment> \<open>do_bgfg, lines 433-436\<close>
| "step_pc c f (Bgfg_pid_state a0 myjid i mypid) s =
     (if state (jobs s ! i) = FG
      then (Prompt, print (''('' @ dec mypid @ ''): Already in foreground'' @ [CHR 0x0A]) s)
      else (Bgfg_mode a0 myjid i mypid, s))"
  \<comment> \<open>do_bgfg, lines 440-443 and 459\<close>
| "step_pc c f (Bgfg_mode a0 myjid i mypid) s =
     (if take 2 a0 = ''fg'' then (Fg_set i mypid, kill (- mypid) SIGTSTP s)
      else if take 2 a0 = ''bg'' then (Bg_set myjid i mypid, s)
      else (Prompt, s))"
  \<comment> \<open>do_bgfg, line 446\<close>
| "step_pc c f (Fg_set i mypid) s =
     (Fg_cont mypid, s\<lparr>jobs := (jobs s)[i := (jobs s ! i)\<lparr>state := FG\<rparr>]\<rparr>)"
  \<comment> \<open>do_bgfg, line 449\<close>
| "step_pc c f (Fg_cont mypid) s = (Fg_wait, kill (- mypid) SIGCONT s)"
  \<comment> \<open>do_bgfg, line 453\<close>
| "step_pc c f Fg_wait s = (Waitfg_getjob (fgpid (jobs s)), s)"
  \<comment> \<open>do_bgfg, line 462\<close>
| "step_pc c f (Bg_set myjid i mypid) s =
     (Bg_print myjid i mypid, s\<lparr>jobs := (jobs s)[i := (jobs s ! i)\<lparr>state := BG\<rparr>]\<rparr>)"
  \<comment> \<open>do_bgfg, line 463\<close>
| "step_pc c f (Bg_print myjid i mypid) s =
     (Bg_cont mypid,
      print (''['' @ dec myjid @ ''] ('' @ dec mypid @ '') '' @ cmdline (jobs s ! i)) s)"
  \<comment> \<open>do_bgfg, line 466\<close>
| "step_pc c f (Bg_cont mypid) s = (Prompt, kill (- mypid) SIGCONT s)"
| "step_pc c f (Exited n) s = (Exited n, s)"
| "step_pc c f Crashed s = (Crashed, s)"

fun halted :: "pc \<Rightarrow> bool" where
  "halted (Exited n) = True"
| "halted Crashed = True"
| "halted _ = False"

text \<open>
  The whole system: the command loop, the globals, and the children of the shell that
  the kernel still holds (running, stopped, or terminated and not yet reaped).
\<close>

record sys =
  pc :: pc
  sh :: shell
  kids :: "int set"

definition main_step :: "command \<Rightarrow> int \<Rightarrow> sys \<Rightarrow> sys" where
  "main_step c f t =
     \<lparr>pc = fst (step_pc c f (pc t) (sh t)),
      sh = snd (step_pc c f (pc t) (sh t)),
      kids = (case pc t of
                Eval_fork prev fginit cl \<Rightarrow> if f > 0 then insert f (kids t) else kids t
              | _ \<Rightarrow> kids t)\<rparr>"

text \<open>
  The kernel delivers SIGCHLD: it adds the signal to the mask, runs the handler and
  puts the mask back when the handler returns. Children whose termination the handler
  reaped are gone.
\<close>

definition reaped :: "(int \<times> wstatus) list \<Rightarrow> (int \<times> wstatus) list \<Rightarrow> int set" where
  "reaped q q' =
     set (map fst (filter (\<lambda>x. \<not> WIFSTOPPED (snd x)) (take (length q - length q') q)))"

definition deliver :: "(int \<times> wstatus) list \<Rightarrow> sys \<Rightarrow> sys" where
  "deliver q t =
     (case sigchld_handler q (kids t = {}) ((sh t)\<lparr>sigmask := insert SIGCHLD (sigmask (sh t))\<rparr>) of
        Inl e \<Rightarrow> t\<lparr>pc := Crashed\<rparr>
      | Inr (q', s') \<Rightarrow>
          t\<lparr>sh := s'\<lparr>sigmask := sigmask (sh t)\<rparr>, kids := kids t - reaped q q'\<rparr>)"

text \<open>
  A step of the system is a statement of the command loop, or a delivery of SIGCHLD
  while the signal is not blocked. \<^verbatim>\<open>fork\<close> fails with -1 or returns a pid that no
  existing child has. \<^verbatim>\<open>waitpid\<close> reports children that exist, each of them once in
  one delivery; which children have changed status, and when, is left open. The
  handlers of SIGINT and SIGTSTP read the table and send a signal; they write neither
  the table nor the mask and are not steps.
\<close>

inductive step :: "sys \<Rightarrow> sys \<Rightarrow> bool" where
  shell_step:
    "\<not> halted (pc t) \<Longrightarrow>
     (\<forall>prev fginit cl. pc t = Eval_fork prev fginit cl \<longrightarrow> f = - 1 \<or> (0 < f \<and> f \<notin> kids t)) \<Longrightarrow>
     step t (main_step c f t)"
| chld_step:
    "\<not> halted (pc t) \<Longrightarrow> SIGCHLD \<notin> sigmask (sh t) \<Longrightarrow>
     fst ` set q \<subseteq> kids t \<Longrightarrow> distinct (map fst q) \<Longrightarrow>
     step t (deliver q t)"

text \<open>
  The shell starts with its globals as \<^verbatim>\<open>main\<close> leaves them before the first prompt:
  the zeroed array after \<^verbatim>\<open>initjobs\<close>, the counter at 1, \<^verbatim>\<open>verbose\<close> as the option
  \<^verbatim>\<open>-v\<close> sets it, and no child.
\<close>

definition init_shell :: "bool \<Rightarrow> shell" where
  "init_shell v =
     \<lparr>jobs = initjobs (replicate MAXJOBS \<lparr>pid = 0, jid = 0, state = UNDEF, cmdline = []\<rparr>),
      nextjid = 1, verbose = v, flag = 0, errno = 0, sigmask = {}, out = [], sent = []\<rparr>"

definition init_sys :: "bool \<Rightarrow> sys" where
  "init_sys v = \<lparr>pc = Prompt, sh = init_shell v, kids = {}\<rparr>"

inductive reachable :: "sys \<Rightarrow> bool" where
  reachable_init: "reachable (init_sys v)"
| reachable_step: "reachable t \<Longrightarrow> step t t' \<Longrightarrow> reachable t'"

subsection \<open>Invariants of the system\<close>

text \<open>
  No slot is in the foreground; every foreground slot holds the pid \<open>p\<close>; at most one slot
  is in the foreground.
\<close>

definition nofg :: "job_t list \<Rightarrow> bool" where
  "nofg js = (\<forall>k<MAXJOBS. state (js ! k) \<noteq> FG)"

definition onlyfg :: "int \<Rightarrow> job_t list \<Rightarrow> bool" where
  "onlyfg p js = (\<forall>k<MAXJOBS. state (js ! k) = FG \<longrightarrow> pid (js ! k) = p)"

definition onefg :: "job_t list \<Rightarrow> bool" where
  "onefg js = (\<forall>i<MAXJOBS. \<forall>k<MAXJOBS. state (js ! i) = FG \<and> state (js ! k) = FG \<longrightarrow> i = k)"

text \<open>
  The table and the kernel agree: the table has \<^verbatim>\<open>MAXJOBS\<close> slots, the live slots hold
  different pids, each of them the pid of a child that the kernel still holds, and the
  pids of children are positive.
\<close>

definition table_ok :: "job_t list \<Rightarrow> int set \<Rightarrow> bool" where
  "table_ok js ks =
     (length js = MAXJOBS \<and>
      (\<forall>i<MAXJOBS. \<forall>k<MAXJOBS. pid (js ! i) = pid (js ! k) \<and> pid (js ! i) \<noteq> 0 \<longrightarrow> i = k) \<and>
      (\<forall>k<MAXJOBS. pid (js ! k) \<noteq> 0 \<longrightarrow> pid (js ! k) \<in> ks) \<and>
      (\<forall>p\<in>ks. 0 < p))"

text \<open>What holds of the table when the command loop is at a given statement.\<close>

fun pc_ok :: "pc \<Rightarrow> job_t list \<Rightarrow> int set \<Rightarrow> bool" where
  "pc_ok (Eval_addjob prev fginit cl p) js ks =
     (nofg js \<and> p \<in> ks \<and> (\<forall>k<MAXJOBS. pid (js ! k) \<noteq> p))"
| "pc_ok (Eval_setmask prev p) js ks = (onlyfg p js \<and> 0 < p)"
| "pc_ok (Eval_getjob p) js ks = (onlyfg p js \<and> 0 < p)"
| "pc_ok (Eval_jid p job) js ks =
     (\<forall>k<MAXJOBS. state (js ! k) = FG \<longrightarrow> job = Some k \<and> pid (js ! k) = p)"
| "pc_ok (Eval_state p i n) js ks =
     (\<forall>k<MAXJOBS. state (js ! k) = FG \<longrightarrow> k = i \<and> pid (js ! k) = p)"
| "pc_ok (Waitfg_getjob p) js ks = onlyfg p js"
| "pc_ok (Waitfg_jid p job) js ks = (onlyfg p js \<and> (job \<noteq> None \<longrightarrow> 0 < p))"
| "pc_ok (Waitfg_check p n) js ks = (onlyfg p js \<and> 0 < p)"
| "pc_ok (Waitfg_loop p n) js ks = onlyfg p js"
| "pc_ok (Fg_cont mypid) js ks = True"
| "pc_ok Fg_wait js ks = True"
| "pc_ok (Exited n) js ks = True"
| "pc_ok Crashed js ks = True"
| "pc_ok _ js ks = nofg js"

definition sys_inv :: "sys \<Rightarrow> bool" where
  "sys_inv t =
     (table_ok (jobs (sh t)) (kids t) \<and> onefg (jobs (sh t)) \<and>
      pc_ok (pc t) (jobs (sh t)) (kids t))"

subsection \<open>Runs and sample tables\<close>

text \<open>
  An event is one statement of the command loop, given the line it would read at the
  prompt and the result it would get from \<^verbatim>\<open>fork\<close>, or one delivery of SIGCHLD, given
  the queue that \<^verbatim>\<open>waitpid\<close> would report. \<open>exec\<close> runs a list of events and checks
  that each one can happen, as \<open>step\<close> requires; it is \<open>None\<close> when one cannot.
\<close>

datatype event = Main command int | Chld "(int \<times> wstatus) list"

fun is_fork :: "pc \<Rightarrow> bool" where
  "is_fork (Eval_fork prev fginit cl) = True"
| "is_fork _ = False"

fun enabled :: "event \<Rightarrow> sys \<Rightarrow> bool" where
  "enabled (Main c f) t =
     (\<not> halted (pc t) \<and> (is_fork (pc t) \<longrightarrow> f = - 1 \<or> (0 < f \<and> f \<notin> kids t)))"
| "enabled (Chld q) t =
     (\<not> halted (pc t) \<and> SIGCHLD \<notin> sigmask (sh t) \<and>
      (\<forall>x \<in> set q. fst x \<in> kids t) \<and> distinct (map fst q))"

fun fire :: "event \<Rightarrow> sys \<Rightarrow> sys" where
  "fire (Main c f) t = main_step c f t"
| "fire (Chld q) t = deliver q t"

fun exec :: "event list \<Rightarrow> sys \<Rightarrow> sys option" where
  "exec [] t = Some t"
| "exec (e # es) t = (if enabled e t then exec es (fire e t) else None)"

text \<open>
  The line \<^verbatim>\<open>sleep 100\<close>, with or without \<^verbatim>\<open>&\<close>, as the command loop gets it: the
  text of the line ends in a newline. The statements of \<^verbatim>\<open>eval\<close> for it, from the prompt to the
  restored mask, when \<^verbatim>\<open>fork\<close> returns \<open>p\<close>; the four statements that follow for a
  background job; sixteen background jobs.
\<close>

definition sleep_cmd :: "bool \<Rightarrow> command" where
  "sleep_cmd bg =
     Launch [''sleep'', ''100''] bg
       (if bg then ''sleep 100 &'' @ [CHR 0x0A] else ''sleep 100'' @ [CHR 0x0A])"

definition sleep_fg :: command where
  "sleep_fg = sleep_cmd False"

definition launch :: "bool \<Rightarrow> int \<Rightarrow> event list" where
  "launch bg p = replicate 5 (Main (sleep_cmd bg) p)"

definition launch_bg :: "int \<Rightarrow> event list" where
  "launch_bg p = launch True p @ replicate 4 (Main Blank 0)"

definition full_table :: "event list" where
  "full_table = concat (map launch_bg
     [101, 102, 103, 104, 105, 106, 107, 108, 109, 110, 111, 112, 113, 114, 115, 116])"

definition add_bg :: "int \<Rightarrow> shell \<Rightarrow> shell" where
  "add_bg p s = snd (addjob s p BG (''sleep 100 &'' @ [CHR 0x0A]))"

definition del :: "int \<Rightarrow> shell \<Rightarrow> shell" where
  "del p s = snd (deletejob s p)"

definition three_jobs :: shell where
  "three_jobs = add_bg 13 (add_bg 12 (add_bg 11 (init_shell False)))"

section \<open>Properties of the job table\<close>

lemma job_t_all_fields:
  "(r::job_t)\<lparr>pid := p, state := st, jid := n, cmdline := cl\<rparr> =
     \<lparr>pid = p, jid = n, state = st, cmdline = cl\<rparr>"
  by (cases r) simp

lemma find_upt_first:
  assumes "i < n" "P i" "\<forall>k<i. \<not> P k"
  shows "find P [0..<n] = Some i"
proof -
  have "\<exists>k<length [0..<n]. P ([0..<n] ! k) \<and> i = [0..<n] ! k \<and> (\<forall>j<k. \<not> P ([0..<n] ! j))"
    using assms by (intro exI [of _ i]) simp
  then show ?thesis
    by (simp only: find_Some_iff)
qed

lemma find_upt_SomeD:
  assumes "find P [0..<n] = Some i"
  shows "i < n \<and> P i \<and> (\<forall>k<i. \<not> P k)"
  using assms by (auto simp: find_Some_iff)

lemma addjob_free_slot:
  assumes pos: "1 \<le> p"
    and empty: "\<exists>k<MAXJOBS. pid (jobs s ! k) = 0"
  shows "\<exists>i<MAXJOBS.
           pid (jobs s ! i) = 0 \<and> (\<forall>k<i. pid (jobs s ! k) \<noteq> 0) \<and>
           fst (addjob s p st cl) = 1 \<and>
           jobs (snd (addjob s p st cl)) =
             (jobs s)[i := \<lparr>pid = p, jid = nextjid s, state = st, cmdline = cl\<rparr>]"
proof -
  define i where "i = (LEAST k. k < MAXJOBS \<and> pid (jobs s ! k) = 0)"
  from empty obtain k0 where k0: "k0 < MAXJOBS \<and> pid (jobs s ! k0) = 0" by blast
  have i: "i < MAXJOBS \<and> pid (jobs s ! i) = 0"
    unfolding i_def using k0 by (rule LeastI)
  have first: "\<forall>k<i. pid (jobs s ! k) \<noteq> 0"
  proof (intro allI impI)
    fix k assume "k < i"
    then have "\<not> (k < MAXJOBS \<and> pid (jobs s ! k) = 0)"
      unfolding i_def by (rule not_less_Least)
    with \<open>k < i\<close> i show "pid (jobs s ! k) \<noteq> 0" by simp
  qed
  have f: "find (\<lambda>i. pid (jobs s ! i) = 0) [0..<MAXJOBS] = Some i"
    using i first by (intro find_upt_first) auto
  have new: "jobs (snd (addjob s p st cl)) =
      (jobs s)[i := \<lparr>pid = p, jid = nextjid s, state = st, cmdline = cl\<rparr>]"
    using pos f by (simp add: addjob_def Let_def job_t_all_fields)
  have ret: "fst (addjob s p st cl) = 1"
    using pos f by (simp add: addjob_def Let_def)
  show ?thesis
    using i first ret new by (intro exI [of _ i]) simp
qed

text \<open>
  C10. A successful \<^verbatim>\<open>addjob\<close> (a pid of at least 1, a table with an empty slot, a
  command line that fits the field \<^verbatim>\<open>cmdline\<close>, that is, of fewer than \<^verbatim>\<open>MAXLINE\<close>
  characters) writes exactly one slot: the first empty slot in index order. That slot
  receives the pid, the state, the next jid and the command line, which makes it differ
  from what it held; every other slot of the table is as before.
\<close>

theorem addjob_writes_first_empty_slot:
  assumes len: "length (jobs s) = MAXJOBS"
    and pos: "1 \<le> p"
    and empty: "\<exists>k<MAXJOBS. pid (jobs s ! k) = 0"
    and fits: "length cl < MAXLINE"
  shows "\<exists>i<MAXJOBS.
           pid (jobs s ! i) = 0 \<and> (\<forall>k<i. pid (jobs s ! k) \<noteq> 0) \<and>
           fst (addjob s p st cl) = 1 \<and>
           jobs (snd (addjob s p st cl)) ! i =
             \<lparr>pid = p, jid = nextjid s, state = st, cmdline = cl\<rparr> \<and>
           jobs (snd (addjob s p st cl)) ! i \<noteq> jobs s ! i \<and>
           length (jobs (snd (addjob s p st cl))) = MAXJOBS \<and>
           (\<forall>k<MAXJOBS. k \<noteq> i \<longrightarrow> jobs (snd (addjob s p st cl)) ! k = jobs s ! k)"
proof -
  from addjob_free_slot [OF pos empty, of st cl] obtain i where i: "i < MAXJOBS"
    and e: "pid (jobs s ! i) = 0" and first: "\<forall>k<i. pid (jobs s ! k) \<noteq> 0"
    and ret: "fst (addjob s p st cl) = 1"
    and new: "jobs (snd (addjob s p st cl)) =
      (jobs s)[i := \<lparr>pid = p, jid = nextjid s, state = st, cmdline = cl\<rparr>]"
    by blast
  have differs: "jobs (snd (addjob s p st cl)) ! i \<noteq> jobs s ! i"
  proof
    assume "jobs (snd (addjob s p st cl)) ! i = jobs s ! i"
    then have "pid (jobs (snd (addjob s p st cl)) ! i) = pid (jobs s ! i)" by simp
    with new len i e pos show False by simp
  qed
  show ?thesis
    using i e first ret new differs len by (intro exI [of _ i]) simp
qed

text \<open>
  The theorem on a table with live jobs around the first empty slot: the jobs of pid 11
  and 13 in slots 0 and 2, slot 1 cleared. The new job goes to slot 1; the slots of the
  live jobs and the empty slots after them are as before.
\<close>

theorem addjob_writes_first_empty_slot_witness:
  "length (jobs (del 12 three_jobs)) = MAXJOBS \<and>
   length (''ls'' @ [CHR 0x0A]) < MAXLINE \<and>
   map pid (jobs (del 12 three_jobs)) = [11, 0, 13, 0, 0, 0, 0, 0, 0, 0, 0, 0, 0, 0, 0, 0] \<and>
   fst (addjob (del 12 three_jobs) 14 FG (''ls'' @ [CHR 0x0A])) = 1 \<and>
   jobs (snd (addjob (del 12 three_jobs) 14 FG (''ls'' @ [CHR 0x0A]))) ! 1 =
     \<lparr>pid = 14, jid = 4, state = FG, cmdline = ''ls'' @ [CHR 0x0A]\<rparr> \<and>
   jobs (snd (addjob (del 12 three_jobs) 14 FG (''ls'' @ [CHR 0x0A]))) ! 1 \<noteq>
     jobs (del 12 three_jobs) ! 1 \<and>
   jobs (snd (addjob (del 12 three_jobs) 14 FG (''ls'' @ [CHR 0x0A]))) ! 0 =
     jobs (del 12 three_jobs) ! 0 \<and>
   jobs (snd (addjob (del 12 three_jobs) 14 FG (''ls'' @ [CHR 0x0A]))) ! 2 =
     jobs (del 12 three_jobs) ! 2 \<and>
   jobs (snd (addjob (del 12 three_jobs) 14 FG (''ls'' @ [CHR 0x0A]))) ! 3 =
     jobs (del 12 three_jobs) ! 3 \<and>
   jobs (snd (addjob (del 12 three_jobs) 14 FG (''ls'' @ [CHR 0x0A]))) ! 15 =
     jobs (del 12 three_jobs) ! 15"
proof -
  let ?s = "del 12 three_jobs"
  let ?cl = "''ls'' @ [CHR 0x0A]"
  let ?js = "jobs (snd (addjob ?s 14 FG ?cl))"
  have len: "length (jobs ?s) = MAXJOBS" by code_simp
  have pos: "(1::int) \<le> 14" by simp
  have pids: "map pid (jobs ?s) = [11, 0, 13, 0, 0, 0, 0, 0, 0, 0, 0, 0, 0, 0, 0, 0]"
    by code_simp
  have p0: "pid (jobs ?s ! 0) = 11" and p1: "pid (jobs ?s ! 1) = 0" by code_simp+
  have nj: "nextjid ?s = 4" by code_simp
  from p1 have empty: "\<exists>k<MAXJOBS. pid (jobs ?s ! k) = 0" by (intro exI [of _ 1]) simp
  have fits: "length ?cl < MAXLINE" by simp
  from addjob_writes_first_empty_slot [OF len pos empty fits, of FG]
  obtain i where i: "i < MAXJOBS" and e: "pid (jobs ?s ! i) = 0"
    and first: "\<forall>k<i. pid (jobs ?s ! k) \<noteq> 0"
    and ret: "fst (addjob ?s 14 FG ?cl) = 1"
    and new: "?js ! i = \<lparr>pid = 14, jid = nextjid ?s, state = FG, cmdline = ?cl\<rparr>"
    and differs: "?js ! i \<noteq> jobs ?s ! i"
    and frame: "\<forall>k<MAXJOBS. k \<noteq> i \<longrightarrow> ?js ! k = jobs ?s ! k"
    by blast
  have "i \<noteq> 0"
  proof
    assume "i = 0"
    with e p0 show False by simp
  qed
  moreover have "\<not> 1 < i"
  proof
    assume "1 < i"
    with first have "pid (jobs ?s ! 1) \<noteq> 0" by blast
    with p1 show False by simp
  qed
  ultimately have i1: "i = 1" by simp
  from frame i1 have "?js ! 0 = jobs ?s ! 0" "?js ! 2 = jobs ?s ! 2" "?js ! 3 = jobs ?s ! 3"
    "?js ! 15 = jobs ?s ! 15" by simp_all
  with len fits pids ret new differs i1 nj show ?thesis by simp
qed








lemma addjob_success:
  assumes "fst (addjob s q st cl) = 1"
  shows "\<exists>i<MAXJOBS. pid (jobs s ! i) = 0 \<and> (\<forall>k<i. pid (jobs s ! k) \<noteq> 0) \<and>
           jobs (snd (addjob s q st cl)) =
             (jobs s)[i := \<lparr>pid = q, jid = nextjid s, state = st, cmdline = cl\<rparr>] \<and>
           nextjid (snd (addjob s q st cl)) =
             (if nextjid s + 1 > int MAXJOBS then 1 else nextjid s + 1)"
proof -
  from assms obtain i where f: "find (\<lambda>i. pid (jobs s ! i) = 0) [0..<MAXJOBS] = Some i"
    and q: "\<not> q < 1"
    by (auto simp: addjob_def split: if_splits option.splits)
  from find_upt_SomeD [OF f] have i: "i < MAXJOBS" "pid (jobs s ! i) = 0" "\<forall>k<i. pid (jobs s ! k) \<noteq> 0"
    by auto
  show ?thesis
    using i q f by (intro exI [of _ i]) (simp add: addjob_def Let_def job_t_all_fields)
qed




section \<open>The SIGCHLD handler\<close>

text \<open>
  C3. The handler is to reap every child that has a pending change of status before it
  returns. With the jobs of pid 11, 12 and 13 in the table and the children 11 and 12 both
  terminated, one call of the handler reaps child 11 and returns: child 12 is still in
  the queue of \<^verbatim>\<open>waitpid\<close> and still in the table, as a background job.
\<close>

theorem sigchld_handler_leaves_second_child:
  "(case sigchld_handler [(11, WExited 0), (12, WExited 0)] False three_jobs of
      Inl e \<Rightarrow> False
    | Inr (q', s') \<Rightarrow>
        q' = [(12, WExited 0)] \<and>
        map pid (jobs s') = [0, 12, 13, 0, 0, 0, 0, 0, 0, 0, 0, 0, 0, 0, 0, 0] \<and>
        map state (jobs s') =
          [UNDEF, BG, BG, UNDEF, UNDEF, UNDEF, UNDEF, UNDEF, UNDEF, UNDEF, UNDEF, UNDEF,
           UNDEF, UNDEF, UNDEF, UNDEF])"
  by code_simp

text \<open>
  C4. The handler is to put back the signal mask and \<^verbatim>\<open>errno\<close> it found. Entered with
  only SIGCHLD blocked, and with one terminated child to reap, it returns from inside the
  loop with SIGINT and SIGTSTP blocked as well: the statements that restore \<^verbatim>\<open>errno\<close>
  and the mask are not reached. When \<^verbatim>\<open>waitpid\<close> has nothing to report they are.
\<close>

theorem sigchld_handler_keeps_mask_blocked:
  "(case sigchld_handler [(11, WExited 0)] False (three_jobs\<lparr>sigmask := {SIGCHLD}\<rparr>) of
      Inl e \<Rightarrow> False
    | Inr (q', s') \<Rightarrow> sigmask s' = {SIGINT, SIGCHLD, SIGTSTP} \<and> sigmask s' \<noteq> {SIGCHLD}) \<and>
   (case sigchld_handler [] True (three_jobs\<lparr>sigmask := {SIGCHLD}, errno := 4\<rparr>) of
      Inl e \<Rightarrow> False
    | Inr (q', s') \<Rightarrow> sigmask s' = {SIGCHLD} \<and> errno s' = 4)"
  by code_simp

section \<open>The builtin commands fg and bg\<close>

text \<open>
  C9. \<^verbatim>\<open>do_bgfg\<close> called with no argument after the command name prints one line,
  the command name followed by a fixed text that ends in a newline, and returns to the
  prompt: the job table, the counter, the signals sent and the children are as before.
\<close>

theorem bgfg_without_argument:
  "main_step (Bgfg a0 []) f \<lparr>pc = Prompt, sh = s, kids = k\<rparr> =
     \<lparr>pc = Bgfg_entry a0 [], sh = s, kids = k\<rparr> \<and>
   main_step c f \<lparr>pc = Bgfg_entry a0 [], sh = s, kids = k\<rparr> =
     \<lparr>pc = Prompt,
      sh = s\<lparr>out := out s @ [a0 @ '' command requires PID or %jobid argument'' @ [CHR 0x0A]]\<rparr>,
      kids = k\<rparr> \<and>
   jobs (sh (main_step c f \<lparr>pc = Bgfg_entry a0 [], sh = s, kids = k\<rparr>)) = jobs s \<and>
   nextjid (sh (main_step c f \<lparr>pc = Bgfg_entry a0 [], sh = s, kids = k\<rparr>)) = nextjid s \<and>
   sent (sh (main_step c f \<lparr>pc = Bgfg_entry a0 [], sh = s, kids = k\<rparr>)) = sent s \<and>
   count_list (a0 @ '' command requires PID or %jobid argument'' @ [CHR 0x0A]) (CHR 0x0A) =
     count_list a0 (CHR 0x0A) + 1"
  by (simp add: main_step_def print_def)

text \<open>
  C5. \<^verbatim>\<open>fg\<close> and \<^verbatim>\<open>bg\<close> are to report a selector that names no live job and do
  nothing. Three background jobs are launched, the second one exits and is reaped, and
  the user types \<^verbatim>\<open>fg %2\<close>: jid 2 is not above the largest jid in the table, the lookup
  by jid has found nothing, and the shell reads the pid through the null pointer.
\<close>

theorem fg_of_dead_jid_crashes:
  "map_option pc
     (exec (launch_bg 11 @ launch_bg 12 @ launch_bg 13 @ [Chld [(12, WExited 0)]] @
            replicate 5 (Main (Bgfg ''fg'' [''%2'']) 0)) (init_sys False)) = Some Crashed \<and>
   map_option (\<lambda>t. (pc t, map jid (jobs (sh t))))
     (exec (launch_bg 11 @ launch_bg 12 @ launch_bg 13 @ [Chld [(12, WExited 0)]] @
            replicate 4 (Main (Bgfg ''fg'' [''%2'']) 0)) (init_sys False)) =
     Some (Bgfg_jid_pid ''fg'' 2 None, [1, 0, 3, 0, 0, 0, 0, 0, 0, 0, 0, 0, 0, 0, 0, 0])"
  by code_simp

section \<open>Waiting for the foreground job\<close>

text \<open>
  C6. \<^verbatim>\<open>waitfg\<close> is to return at once when there is no foreground job. A foreground
  job is launched with pid 5; \<^verbatim>\<open>eval\<close> finds it in the foreground and calls
  \<^verbatim>\<open>waitfg\<close>; the child exits and the handler clears its slot before \<^verbatim>\<open>waitfg\<close> looks
  the job up. The lookup finds nothing and \<^verbatim>\<open>waitfg\<close> reads the jid through the null
  pointer, before its test for a foreground job.
\<close>

theorem waitfg_of_cleared_job_crashes:
  "map_option pc
     (exec (launch False 5 @ replicate 3 (Main Blank 0)) (init_sys False)) =
     Some (Waitfg_getjob 5) \<and>
   map_option (\<lambda>t. (pc t, fgpid (jobs (sh t))))
     (exec (launch False 5 @ replicate 3 (Main Blank 0) @ [Chld [(5, WExited 0)]] @
            [Main Blank 0]) (init_sys False)) = Some (Waitfg_jid 5 None, 0) \<and>
   map_option pc
     (exec (launch False 5 @ replicate 3 (Main Blank 0) @ [Chld [(5, WExited 0)]] @
            replicate 2 (Main Blank 0)) (init_sys False)) = Some Crashed"
  by code_simp

section \<open>Launching a job\<close>

text \<open>
  C8. A launch on a full table is to report the error, drop the request and return.
  Sixteen background jobs fill the table. The seventeenth launch prints the error and
  leaves the table as it was, but \<^verbatim>\<open>eval\<close> then looks the new pid up, finds nothing
  and reads the jid through the null pointer.
\<close>

theorem launch_on_full_table_crashes:
  "map_option (\<lambda>t. (pc t, map pid (jobs (sh t))))
     (exec full_table (init_sys False)) =
     Some (Prompt, [101, 102, 103, 104, 105, 106, 107, 108, 109, 110, 111, 112, 113, 114,
                    115, 116]) \<and>
   map_option (\<lambda>t. (pc t, map pid (jobs (sh t)), last (out (sh t))))
     (exec (full_table @ launch True 117 @ [Main Blank 0]) (init_sys False)) =
     Some (Eval_jid 117 None,
           [101, 102, 103, 104, 105, 106, 107, 108, 109, 110, 111, 112, 113, 114, 115, 116],
           ''Tried to create too many jobs'' @ [CHR 0x0A]) \<and>
   map_option pc
     (exec (full_table @ launch True 117 @ replicate 2 (Main Blank 0)) (init_sys False)) =
     Some Crashed \<and>
   map_option (\<lambda>t. jobs (sh t))
     (exec (full_table @ launch True 117 @ replicate 2 (Main Blank 0)) (init_sys False)) =
   map_option (\<lambda>t. jobs (sh t)) (exec full_table (init_sys False))"
  by code_simp

section \<open>Invariants of the running shell\<close>

lemma find_upt_None: "find P [0..<n] = None \<longleftrightarrow> (\<forall>k<n. \<not> P k)"
  by (auto simp: find_None_iff)

lemma getjobpid_Some:
  "getjobpid js p = Some i \<Longrightarrow> 0 < p \<and> i < MAXJOBS \<and> pid (js ! i) = p \<and> (\<forall>k<i. pid (js ! k) \<noteq> p)"
  by (auto simp: getjobpid_def split: if_splits dest!: find_upt_SomeD)

lemma getjobpid_None:
  "getjobpid js p = None \<Longrightarrow> 0 < p \<Longrightarrow> \<forall>k<MAXJOBS. pid (js ! k) \<noteq> p"
  by (auto simp: getjobpid_def find_upt_None split: if_splits)

lemma fgpid_onlyfg:
  assumes "onefg js"
  shows "onlyfg (fgpid js) js"
  unfolding onlyfg_def
proof (intro allI impI)
  fix k :: nat assume k: "k < MAXJOBS" and fg: "state (js ! k) = FG"
  show "pid (js ! k) = fgpid js"
  proof (cases "find (\<lambda>i. state (js ! i) = FG) [0..<MAXJOBS]")
    case None
    with k fg show ?thesis by (auto simp: find_upt_None)
  next
    case (Some i)
    from find_upt_SomeD [OF Some] have "i < MAXJOBS" "state (js ! i) = FG" by auto
    with assms k fg have "i = k" unfolding onefg_def by blast
    with Some show ?thesis by (simp add: fgpid_def)
  qed
qed

lemma fgpid_of_onlyfg:
  assumes "onlyfg p js" "\<not> nofg js"
  shows "fgpid js = p"
proof -
  from assms(2) obtain k where k: "k < MAXJOBS" "state (js ! k) = FG"
    unfolding nofg_def by blast
  then obtain i where f: "find (\<lambda>i. state (js ! i) = FG) [0..<MAXJOBS] = Some i"
    by (cases "find (\<lambda>i. state (js ! i) = FG) [0..<MAXJOBS]") (auto simp: find_upt_None)
  from find_upt_SomeD [OF f] have "i < MAXJOBS" "state (js ! i) = FG" by auto
  with assms(1) have "pid (js ! i) = p" unfolding onlyfg_def by blast
  with f show ?thesis by (simp add: fgpid_def)
qed

lemma nofg_onlyfg: "nofg js \<Longrightarrow> onlyfg p js"
  by (simp add: nofg_def onlyfg_def)

lemma clearjob_eq: "clearjob r = \<lparr>pid = 0, jid = 0, state = UNDEF, cmdline = []\<rparr>"
  by (cases r) (simp add: clearjob_def)

lemma find_pid_update_same:
  assumes "getjobpid js p = Some i" "length js = MAXJOBS" "pid x = p"
  shows "find (\<lambda>k. pid (js[i := x] ! k) = p) [0..<MAXJOBS] = Some i"
proof -
  from getjobpid_Some [OF assms(1)]
  have i: "i < MAXJOBS" "pid (js ! i) = p" "\<forall>k<i. pid (js ! k) \<noteq> p" by auto
  show ?thesis
    using i assms(2,3) by (intro find_upt_first) auto
qed

lemma deletejob_found:
  assumes "getjobpid (jobs s) p = Some i"
  shows "jobs (snd (deletejob s p)) =
           (jobs s)[i := \<lparr>pid = 0, jid = 0, state = UNDEF, cmdline = []\<rparr>]"
  using assms by (auto simp: deletejob_def getjobpid_def clearjob_eq Let_def split: if_splits)

text \<open>What one run of the handler does to the table.\<close>

lemma sigchld_handler_jobs:
  assumes len: "length (jobs s) = MAXJOBS"
  shows "sigchld_handler q n s = Inl Segv \<or>
         (\<exists>s'. sigchld_handler q n s = Inr (q, s') \<and> jobs s' = jobs s) \<or>
         (\<exists>p st q' i s'. q = (p, st) # q' \<and> sigchld_handler q n s = Inr (q', s') \<and>
            getjobpid (jobs s) p = Some i \<and>
            jobs s' = (jobs s)[i := (if WIFSTOPPED st then (jobs s ! i)\<lparr>state := ST\<rparr>
                                     else \<lparr>pid = 0, jid = 0, state = UNDEF, cmdline = []\<rparr>)])"
proof (cases q)
  case Nil
  then show ?thesis by (simp add: Let_def)
next
  case (Cons x q')
  obtain p st where x: "x = (p, st)" by (cases x)
  show ?thesis
  proof (cases "p > 0")
    case False
    with Cons x show ?thesis by (simp add: Let_def)
  next
    case True
    show ?thesis
    proof (cases "getjobpid (jobs s) p")
      case None
      with Cons x True show ?thesis by (simp add: Let_def)
    next
      case (Some i)
      from getjobpid_Some [OF Some] have i: "i < MAXJOBS" "pid (jobs s ! i) = p" by auto
      let ?js = "(jobs s)[i := (jobs s ! i)\<lparr>state := ST\<rparr>]"
      have g: "\<And>s'. jobs s' = ?js \<Longrightarrow> getjobpid (jobs s') p = Some i"
        using find_pid_update_same [OF Some len, of "(jobs s ! i)\<lparr>state := ST\<rparr>"] i True
        by (simp add: getjobpid_def)
      have d: "\<And>s'. jobs s' = ?js \<Longrightarrow> jobs (snd (deletejob s' p)) =
          (jobs s)[i := \<lparr>pid = 0, jid = 0, state = UNDEF, cmdline = []\<rparr>]"
        using deletejob_found [OF g] by simp
      show ?thesis
        using Cons x True Some
        by (cases st) (simp_all add: Let_def d)
    qed
  qed
qed

lemma upd_fg:
  "state (js[i := x] ! a) = FG \<Longrightarrow> state x \<noteq> FG \<Longrightarrow> js[i := x] ! a = js ! a"
  by (cases "a = i"; cases "i < length js") (simp_all add: list_update_beyond)

lemma table_ok_update:
  assumes ok: "table_ok js ks" and i: "i < MAXJOBS"
    and x: "pid x = pid (js ! i) \<and> ks' = ks \<or> pid x = 0 \<and> ks' = ks - {pid (js ! i)}"
  shows "table_ok (js[i := x]) ks'"
proof -
  from ok have len: "length js = MAXJOBS"
    unfolding table_ok_def by simp
  have dist: "a = b" if "a < MAXJOBS" "b < MAXJOBS" "pid (js ! a) = pid (js ! b)"
    "pid (js ! a) \<noteq> 0" for a b
    using ok that unfolding table_ok_def by simp
  have sub: "pid (js ! k) \<in> ks" if "k < MAXJOBS" "pid (js ! k) \<noteq> 0" for k
    using ok that unfolding table_ok_def by simp
  have pos: "0 < p" if "p \<in> ks" for p
    using ok that unfolding table_ok_def by simp
  have nth: "\<And>a. a < MAXJOBS \<Longrightarrow> pid (js[i := x] ! a) \<noteq> 0 \<Longrightarrow>
      pid (js[i := x] ! a) = pid (js ! a)"
    using x len i by (auto simp: nth_list_update)
  have "length (js[i := x]) = MAXJOBS" using len by simp
  moreover have "\<forall>a<MAXJOBS. \<forall>b<MAXJOBS.
      pid (js[i := x] ! a) = pid (js[i := x] ! b) \<and> pid (js[i := x] ! a) \<noteq> 0 \<longrightarrow> a = b"
  proof (intro allI impI)
    fix a b :: nat assume a: "a < MAXJOBS" and b: "b < MAXJOBS"
      and e: "pid (js[i := x] ! a) = pid (js[i := x] ! b) \<and> pid (js[i := x] ! a) \<noteq> 0"
    from e nth [OF a] nth [OF b] have "pid (js ! a) = pid (js ! b)" "pid (js ! a) \<noteq> 0"
      by auto
    with a b show "a = b" by (rule dist)
  qed
  moreover have "\<forall>k<MAXJOBS. pid (js[i := x] ! k) \<noteq> 0 \<longrightarrow> pid (js[i := x] ! k) \<in> ks'"
  proof (intro allI impI)
    fix k :: nat assume k: "k < MAXJOBS" and nz: "pid (js[i := x] ! k) \<noteq> 0"
    from nth [OF k nz] have e: "pid (js[i := x] ! k) = pid (js ! k)" .
    with nz sub [OF k] have inks: "pid (js ! k) \<in> ks" by simp
    from x show "pid (js[i := x] ! k) \<in> ks'"
    proof
      assume "pid x = pid (js ! i) \<and> ks' = ks"
      with e inks show ?thesis by simp
    next
      assume c: "pid x = 0 \<and> ks' = ks - {pid (js ! i)}"
      with nz len i have ki: "k \<noteq> i" by auto
      have "pid (js ! k) \<noteq> pid (js ! i)"
      proof
        assume "pid (js ! k) = pid (js ! i)"
        with k i e nz have "k = i" by (intro dist) auto
        with ki show False by simp
      qed
      with c e inks show ?thesis by simp
    qed
  qed
  moreover have "\<forall>p\<in>ks'. 0 < p" using x pos by auto
  ultimately show ?thesis unfolding table_ok_def by blast
qed

lemma onefg_update:
  assumes "onefg js" "state x \<noteq> FG"
  shows "onefg (js[i := x])"
  unfolding onefg_def
proof (intro allI impI)
  fix a b :: nat assume a: "a < MAXJOBS" and b: "b < MAXJOBS"
    and fg: "state (js[i := x] ! a) = FG \<and> state (js[i := x] ! b) = FG"
  from fg assms(2) have "js[i := x] ! a = js ! a" "js[i := x] ! b = js ! b"
    by (auto intro: upd_fg)
  with fg have "state (js ! a) = FG \<and> state (js ! b) = FG" by simp
  with assms(1) a b show "a = b" unfolding onefg_def by blast
qed

lemma nofg_update:
  assumes "nofg js" "state x \<noteq> FG"
  shows "nofg (js[i := x])"
  unfolding nofg_def
proof (intro allI impI)
  fix k :: nat assume k: "k < MAXJOBS"
  show "state (js[i := x] ! k) \<noteq> FG"
  proof
    assume fg: "state (js[i := x] ! k) = FG"
    from fg assms(2) have "js[i := x] ! k = js ! k" by (rule upd_fg)
    with fg assms(1) k show False unfolding nofg_def by simp
  qed
qed

lemma fg_imp_update:
  assumes "\<forall>k<MAXJOBS. state (js ! k) = FG \<longrightarrow> P k (pid (js ! k))" "state x \<noteq> FG"
  shows "\<forall>k<MAXJOBS. state (js[i := x] ! k) = FG \<longrightarrow> P k (pid (js[i := x] ! k))"
proof (intro allI impI)
  fix k :: nat assume k: "k < MAXJOBS" and fg: "state (js[i := x] ! k) = FG"
  from fg assms(2) have e: "js[i := x] ! k = js ! k" by (rule upd_fg)
  with fg assms(1) k show "P k (pid (js[i := x] ! k))" by simp
qed

lemma onlyfg_update:
  assumes "onlyfg p js" "state x \<noteq> FG"
  shows "onlyfg p (js[i := x])"
  using fg_imp_update [of js "\<lambda>k q. q = p" x i] assms
  unfolding onlyfg_def by simp

text \<open>
  A write that takes a slot out of the foreground, keeping its pid or clearing it,
  keeps what holds at each statement of the command loop.
\<close>

lemma pc_ok_update:
  assumes ok: "pc_ok c js ks" and x: "state x \<noteq> FG"
    and pidx: "pid x = pid (js ! i) \<or> pid x = 0"
    and len: "length js = MAXJOBS"
    and ks: "\<forall>p\<in>ks. 0 < p"
    and add: "\<And>prev fginit cl p. c = Eval_addjob prev fginit cl p \<Longrightarrow> p \<in> ks'"
  shows "pc_ok c (js[i := x]) ks'"
proof (cases c)
  case (Eval_addjob prev fginit cl p)
  with ok have n: "nofg js" and p: "p \<in> ks" and np: "\<forall>k<MAXJOBS. pid (js ! k) \<noteq> p" by auto
  from p ks have p0: "p \<noteq> 0" by auto
  have "\<forall>k<MAXJOBS. pid (js[i := x] ! k) \<noteq> p"
  proof (intro allI impI)
    fix k :: nat assume k: "k < MAXJOBS"
    show "pid (js[i := x] ! k) \<noteq> p"
    proof (cases "k = i")
      case True
      with pidx len k np p0 show ?thesis by auto
    next
      case False
      with np k show ?thesis by simp
    qed
  qed
  with nofg_update [OF n x] add [OF Eval_addjob] Eval_addjob show ?thesis by simp
next
  case (Eval_jid p job)
  with ok have "\<forall>k<MAXJOBS. state (js ! k) = FG \<longrightarrow> job = Some k \<and> pid (js ! k) = p" by simp
  from fg_imp_update [of js "\<lambda>k q. job = Some k \<and> q = p", OF this x] Eval_jid
  show ?thesis by simp
next
  case (Eval_state p j n)
  with ok have "\<forall>k<MAXJOBS. state (js ! k) = FG \<longrightarrow> k = j \<and> pid (js ! k) = p" by simp
  from fg_imp_update [of js "\<lambda>k q. k = j \<and> q = p", OF this x] Eval_state
  show ?thesis by simp
qed (use ok x in \<open>auto intro: nofg_update onlyfg_update\<close>)


lemma deliver_cases:
  assumes len: "length (jobs (sh t)) = MAXJOBS"
  shows "deliver q t = t\<lparr>pc := Crashed\<rparr> \<or>
         (\<exists>s'. deliver q t = t\<lparr>sh := s'\<rparr> \<and> jobs s' = jobs (sh t) \<and>
               sigmask s' = sigmask (sh t)) \<or>
         (\<exists>p st q' i s'. q = (p, st) # q' \<and> getjobpid (jobs (sh t)) p = Some i \<and>
            sigmask s' = sigmask (sh t) \<and>
            jobs s' = (jobs (sh t))[i := (if WIFSTOPPED st then (jobs (sh t) ! i)\<lparr>state := ST\<rparr>
                                     else \<lparr>pid = 0, jid = 0, state = UNDEF, cmdline = []\<rparr>)] \<and>
            deliver q t = t\<lparr>sh := s', kids := kids t - (if WIFSTOPPED st then {} else {p})\<rparr>)"
proof -
  let ?s = "(sh t)\<lparr>sigmask := insert SIGCHLD (sigmask (sh t))\<rparr>"
  have len': "length (jobs ?s) = MAXJOBS" using len by simp
  from sigchld_handler_jobs [OF len', of q "kids t = {}"]
  consider (crash) "sigchld_handler q (kids t = {}) ?s = Inl Segv"
    | (none) s' where "sigchld_handler q (kids t = {}) ?s = Inr (q, s')" "jobs s' = jobs ?s"
    | (reap) p st q' i s' where "q = (p, st) # q'"
        "sigchld_handler q (kids t = {}) ?s = Inr (q', s')"
        "getjobpid (jobs ?s) p = Some i"
        "jobs s' = (jobs ?s)[i := (if WIFSTOPPED st then (jobs ?s ! i)\<lparr>state := ST\<rparr>
                                   else \<lparr>pid = 0, jid = 0, state = UNDEF, cmdline = []\<rparr>)]"
    by blast
  then show ?thesis
  proof cases
    case crash
    then show ?thesis by (simp add: deliver_def)
  next
    case none
    then have "deliver q t = t\<lparr>sh := s'\<lparr>sigmask := sigmask (sh t)\<rparr>\<rparr>"
      by (simp add: deliver_def reaped_def)
    with none show ?thesis by auto
  next
    case reap
    have r: "reaped q q' = (if WIFSTOPPED st then {} else {p})"
      using reap(1) by (simp add: reaped_def)
    have "deliver q t = t\<lparr>sh := s'\<lparr>sigmask := sigmask (sh t)\<rparr>,
                            kids := kids t - (if WIFSTOPPED st then {} else {p})\<rparr>"
      using reap(2) r by (simp add: deliver_def)
    with reap show ?thesis
      by (intro disjI2 exI [of _ p] exI [of _ st] exI [of _ q'] exI [of _ i]
            exI [of _ "s'\<lparr>sigmask := sigmask (sh t)\<rparr>"]) simp
  qed
qed

lemma inv_deliver:
  assumes "sys_inv t"
  shows "sys_inv (deliver q t)"
proof -
  from assms have tab: "table_ok (jobs (sh t)) (kids t)" and one: "onefg (jobs (sh t))"
    and pcok: "pc_ok (pc t) (jobs (sh t)) (kids t)"
    unfolding sys_inv_def by simp_all
  from tab have len: "length (jobs (sh t)) = MAXJOBS" and pos: "\<forall>p\<in>kids t. 0 < p"
    unfolding table_ok_def by simp_all
  from deliver_cases [OF len, of q]
  consider (crash) "deliver q t = t\<lparr>pc := Crashed\<rparr>"
    | (none) s' where "deliver q t = t\<lparr>sh := s'\<rparr>" "jobs s' = jobs (sh t)"
    | (reap) p st q' i s' where "q = (p, st) # q'" "getjobpid (jobs (sh t)) p = Some i"
        "jobs s' = (jobs (sh t))[i := (if WIFSTOPPED st then (jobs (sh t) ! i)\<lparr>state := ST\<rparr>
                                     else \<lparr>pid = 0, jid = 0, state = UNDEF, cmdline = []\<rparr>)]"
        "deliver q t = t\<lparr>sh := s', kids := kids t - (if WIFSTOPPED st then {} else {p})\<rparr>"
    by blast
  then show ?thesis
  proof cases
    case crash
    with tab one show ?thesis by (simp add: sys_inv_def)
  next
    case none
    with tab one pcok show ?thesis by (simp add: sys_inv_def)
  next
    case reap
    let ?x = "if WIFSTOPPED st then (jobs (sh t) ! i)\<lparr>state := ST\<rparr>
              else \<lparr>pid = 0, jid = 0, state = UNDEF, cmdline = []\<rparr>"
    let ?ks = "kids t - (if WIFSTOPPED st then {} else {p})"
    from getjobpid_Some [OF reap(2)] have i: "i < MAXJOBS" "pid (jobs (sh t) ! i) = p" "0 < p"
      by auto
    have x: "state ?x \<noteq> FG" by simp
    have t1: "table_ok ((jobs (sh t))[i := ?x]) ?ks"
      using tab i(1) by (rule table_ok_update) (use i in auto)
    have t2: "onefg ((jobs (sh t))[i := ?x])"
      using one x by (rule onefg_update)
    have t3: "pc_ok (pc t) ((jobs (sh t))[i := ?x]) ?ks"
      using pcok x
    proof (rule pc_ok_update)
      show "pid ?x = pid (jobs (sh t) ! i) \<or> pid ?x = 0" by simp
      show "length (jobs (sh t)) = MAXJOBS" by (rule len)
      show "\<forall>p\<in>kids t. 0 < p" by (rule pos)
      fix prev fginit cl p0 assume c: "pc t = Eval_addjob prev fginit cl p0"
      with pcok have "p0 \<in> kids t" "\<forall>k<MAXJOBS. pid (jobs (sh t) ! k) \<noteq> p0" by auto
      with i show "p0 \<in> ?ks" by auto
    qed
    from t1 t2 t3 reap(3,4) show ?thesis by (simp add: sys_inv_def)
  qed
qed


lemma fold_jobs_same:
  assumes "\<And>i s. jobs (f i s) = jobs s"
  shows "jobs (fold f xs s) = jobs s"
  using assms by (induction xs arbitrary: s) simp_all

lemma listjobs_jobs: "jobs (listjobs s) = jobs s"
  unfolding listjobs_def
  by (rule fold_jobs_same) (simp add: print_def Let_def split: jstate.splits)

lemma addjob_jobs_cases:
  "jobs (snd (addjob s p st cl)) = jobs s \<or>
   (\<exists>i<MAXJOBS. 1 \<le> p \<and> pid (jobs s ! i) = 0 \<and>
      jobs (snd (addjob s p st cl)) =
        (jobs s)[i := \<lparr>pid = p, jid = nextjid s, state = st, cmdline = cl\<rparr>])"
proof (cases "fst (addjob s p st cl) = 1")
  case True
  from addjob_success [OF True] have "\<exists>i<MAXJOBS. pid (jobs s ! i) = 0 \<and>
      jobs (snd (addjob s p st cl)) =
        (jobs s)[i := \<lparr>pid = p, jid = nextjid s, state = st, cmdline = cl\<rparr>]" by blast
  moreover from True have "1 \<le> p" by (auto simp: addjob_def split: if_splits)
  ultimately show ?thesis by blast
next
  case False
  then show ?thesis
    by (auto simp: addjob_def Let_def split: if_splits option.splits)
qed

lemma addjob_sigmask: "sigmask (snd (addjob s p st cl)) = sigmask s"
  by (auto simp: addjob_def Let_def split: option.splits)

lemma table_ok_state_update:
  assumes "table_ok js ks"
  shows "table_ok (js[i := (js ! i)\<lparr>state := st\<rparr>]) ks"
proof (cases "i < MAXJOBS")
  case True
  with assms show ?thesis by (rule table_ok_update) simp
next
  case False
  with assms have "js[i := (js ! i)\<lparr>state := st\<rparr>] = js"
    by (simp add: table_ok_def list_update_beyond)
  with assms show ?thesis by simp
qed

lemma nofg_onefg_update:
  assumes "nofg js" "length js = MAXJOBS"
  shows "onefg (js[i := x])"
  unfolding onefg_def
proof (intro allI impI)
  fix a b :: nat assume a: "a < MAXJOBS" and b: "b < MAXJOBS"
    and fg: "state (js[i := x] ! a) = FG \<and> state (js[i := x] ! b) = FG"
  have "a = i"
    using fg a assms by (cases "a = i") (auto simp: nofg_def)
  moreover have "b = i"
    using fg b assms by (cases "b = i") (auto simp: nofg_def)
  ultimately show "a = b" by simp
qed

lemma nofg_onlyfg_update:
  assumes "nofg js" "length js = MAXJOBS" "pid x = p"
  shows "onlyfg p (js[i := x])"
  unfolding onlyfg_def
proof (intro allI impI)
  fix k :: nat assume k: "k < MAXJOBS" and fg: "state (js[i := x] ! k) = FG"
  have "k = i"
    using fg k assms by (cases "k = i") (auto simp: nofg_def)
  with fg k assms show "pid (js[i := x] ! k) = p" by simp
qed

lemma table_ok_add:
  assumes ok: "table_ok js ks" and i: "i < MAXJOBS" and e: "pid (js ! i) = 0"
    and p: "pid x \<in> ks" and fresh: "\<forall>k<MAXJOBS. pid (js ! k) \<noteq> pid x"
  shows "table_ok (js[i := x]) ks"
proof -
  from ok have len: "length js = MAXJOBS"
    unfolding table_ok_def by simp
  have dist: "a = b" if "a < MAXJOBS" "b < MAXJOBS" "pid (js ! a) = pid (js ! b)"
    "pid (js ! a) \<noteq> 0" for a b
    using ok that unfolding table_ok_def by simp
  have sub: "pid (js ! k) \<in> ks" if "k < MAXJOBS" "pid (js ! k) \<noteq> 0" for k
    using ok that unfolding table_ok_def by simp
  have pos: "\<forall>p\<in>ks. 0 < p"
    using ok unfolding table_ok_def by simp
  have "length (js[i := x]) = MAXJOBS" using len by simp
  moreover have "\<forall>a<MAXJOBS. \<forall>b<MAXJOBS.
      pid (js[i := x] ! a) = pid (js[i := x] ! b) \<and> pid (js[i := x] ! a) \<noteq> 0 \<longrightarrow> a = b"
  proof (intro allI impI)
    fix a b :: nat assume a: "a < MAXJOBS" and b: "b < MAXJOBS"
      and eq: "pid (js[i := x] ! a) = pid (js[i := x] ! b) \<and> pid (js[i := x] ! a) \<noteq> 0"
    show "a = b"
    proof (cases "a = i")
      case True
      with eq len i have "pid (js[i := x] ! b) = pid x" by simp
      with fresh b len i have "b = i" by (cases "b = i") auto
      with True show ?thesis by simp
    next
      case False
      with eq len i have pa: "pid (js ! a) = pid (js[i := x] ! b)" "pid (js ! a) \<noteq> 0" by auto
      have "b \<noteq> i"
      proof
        assume "b = i"
        with pa len i have "pid (js ! a) = pid x" by simp
        with fresh a show False by auto
      qed
      with pa have "pid (js ! a) = pid (js ! b)" by simp
      with a b pa(2) show ?thesis by (intro dist)
    qed
  qed
  moreover have "\<forall>k<MAXJOBS. pid (js[i := x] ! k) \<noteq> 0 \<longrightarrow> pid (js[i := x] ! k) \<in> ks"
  proof (intro allI impI)
    fix k :: nat assume k: "k < MAXJOBS" and nz: "pid (js[i := x] ! k) \<noteq> 0"
    show "pid (js[i := x] ! k) \<in> ks"
      using k nz p len i sub [of k] by (cases "k = i") auto
  qed
  ultimately show ?thesis using pos unfolding table_ok_def by blast
qed

lemma getjobpid_fg:
  assumes ok: "table_ok js ks" and only: "onlyfg p js" and p: "0 < p"
  shows "\<forall>k<MAXJOBS. state (js ! k) = FG \<longrightarrow> getjobpid js p = Some k \<and> pid (js ! k) = p"
proof (intro allI impI)
  fix k :: nat assume k: "k < MAXJOBS" and fg: "state (js ! k) = FG"
  from only k fg have pk: "pid (js ! k) = p" unfolding onlyfg_def by simp
  have "getjobpid js p \<noteq> None"
  proof
    assume "getjobpid js p = None"
    from getjobpid_None [OF this p] k pk show False by simp
  qed
  then obtain i where f: "getjobpid js p = Some i" by auto
  from getjobpid_Some [OF f] have i: "i < MAXJOBS" "pid (js ! i) = p" by auto
  have "i = k"
    using ok i k pk p unfolding table_ok_def by simp
  with f pk show "getjobpid js p = Some k \<and> pid (js ! k) = p" by simp
qed


lemma step_pc_Bgfg_entry_jobs:
  "jobs (snd (step_pc c f (Bgfg_entry a0 args) s)) = jobs s \<and>
   fst (step_pc c f (Bgfg_entry a0 args) s) \<in>
     {Prompt} \<union> range (Bgfg_jid_lookup a0) \<union> range (Bgfg_pid_lookup a0)"
  by (cases args) (auto simp: print_def Let_def split: prod.splits)

lemma inv_main_step:
  assumes inv: "sys_inv t" and en: "enabled (Main c f) t"
  shows "sys_inv (main_step c f t)"
proof -
  from inv have tab: "table_ok (jobs (sh t)) (kids t)" and one: "onefg (jobs (sh t))"
    and pcok: "pc_ok (pc t) (jobs (sh t)) (kids t)"
    unfolding sys_inv_def by simp_all
  from tab have len: "length (jobs (sh t)) = MAXJOBS" and pos: "\<forall>p\<in>kids t. 0 < p"
    unfolding table_ok_def by simp_all
  note defs = sys_inv_def main_step_def print_def kill_def
  show ?thesis
  proof (cases "pc t")
    case Prompt
    with tab one pcok show ?thesis
      by (cases c) (simp_all add: defs listjobs_jobs)
  next
    case (Eval_block fginit cl)
    with tab one pcok show ?thesis by (simp add: defs)
  next
    case (Eval_fork prev fginit cl)
    with en have f: "f = - 1 \<or> (0 < f \<and> f \<notin> kids t)" by simp
    then show ?thesis
    proof
      assume "f = - 1"
      with Eval_fork tab one show ?thesis by (simp add: defs)
    next
      assume f: "0 < f \<and> f \<notin> kids t"
      have "table_ok (jobs (sh t)) (insert f (kids t))"
        using tab f unfolding table_ok_def by auto
      moreover have "\<forall>k<MAXJOBS. pid (jobs (sh t) ! k) \<noteq> f"
        using tab f unfolding table_ok_def by auto
      ultimately show ?thesis
        using Eval_fork one pcok f by (simp add: defs)
    qed
  next
    case (Eval_addjob prev fginit cl p)
    let ?st = "if fginit then FG else BG"
    from Eval_addjob pcok have n: "nofg (jobs (sh t))" and p: "p \<in> kids t"
      and fresh: "\<forall>k<MAXJOBS. pid (jobs (sh t) ! k) \<noteq> p" by auto
    from p pos have p0: "0 < p" by auto
    from addjob_jobs_cases [of "sh t" p ?st cl]
    show ?thesis
    proof
      assume "jobs (snd (addjob (sh t) p ?st cl)) = jobs (sh t)"
      with Eval_addjob tab one n p0 show ?thesis
        by (simp add: defs nofg_onlyfg)
    next
      assume "\<exists>i<MAXJOBS. 1 \<le> p \<and> pid (jobs (sh t) ! i) = 0 \<and>
        jobs (snd (addjob (sh t) p ?st cl)) =
          (jobs (sh t))[i := \<lparr>pid = p, jid = nextjid (sh t), state = ?st, cmdline = cl\<rparr>]"
      then obtain i where i: "i < MAXJOBS" "pid (jobs (sh t) ! i) = 0"
        and js: "jobs (snd (addjob (sh t) p ?st cl)) =
          (jobs (sh t))[i := \<lparr>pid = p, jid = nextjid (sh t), state = ?st, cmdline = cl\<rparr>]"
        by blast
      let ?x = "\<lparr>pid = p, jid = nextjid (sh t), state = ?st, cmdline = cl\<rparr>"
      have "table_ok ((jobs (sh t))[i := ?x]) (kids t)"
        using tab i by (rule table_ok_add) (use p fresh in simp_all)
      moreover have "onefg ((jobs (sh t))[i := ?x])"
        using n len by (rule nofg_onefg_update)
      moreover have "onlyfg p ((jobs (sh t))[i := ?x])"
        using n len by (rule nofg_onlyfg_update) simp
      ultimately show ?thesis
        using Eval_addjob js p0 by (simp add: defs)
    qed
  next
    case (Eval_setmask prev p)
    with tab one pcok show ?thesis by (simp add: defs)
  next
    case (Eval_getjob p)
    with pcok have "onlyfg p (jobs (sh t))" "0 < p" by auto
    with tab have "\<forall>k<MAXJOBS. state (jobs (sh t) ! k) = FG \<longrightarrow>
        getjobpid (jobs (sh t)) p = Some k \<and> pid (jobs (sh t) ! k) = p"
      by (rule getjobpid_fg)
    with Eval_getjob tab one show ?thesis by (simp add: defs)
  next
    case (Eval_jid p job)
    with tab one pcok show ?thesis
      by (cases job) (auto simp: defs)
  next
    case (Eval_state p i n)
    with pcok have fg: "\<forall>k<MAXJOBS. state (jobs (sh t) ! k) = FG \<longrightarrow>
        k = i \<and> pid (jobs (sh t) ! k) = p" by simp
    show ?thesis
    proof (cases "state (jobs (sh t) ! i) = FG")
      case True
      from fg have "onlyfg p (jobs (sh t))" unfolding onlyfg_def by blast
      with True Eval_state tab one show ?thesis by (simp add: defs)
    next
      case False
      with fg have "nofg (jobs (sh t))" unfolding nofg_def by blast
      with False Eval_state tab one show ?thesis by (simp add: defs)
    qed
  next
    case (Eval_print p i n)
    with tab one pcok show ?thesis by (simp add: defs)
  next
    case (Waitfg_getjob p)
    with tab one pcok show ?thesis
      by (auto simp: defs dest: getjobpid_Some)
  next
    case (Waitfg_jid p job)
    with tab one pcok show ?thesis
      by (cases job) (auto simp: defs)
  next
    case (Waitfg_check p n)
    with pcok have only: "onlyfg p (jobs (sh t))" and p: "0 < p" by auto
    show ?thesis
    proof (cases "fgpid (jobs (sh t)) = 0")
      case True
      have "nofg (jobs (sh t))"
      proof (rule ccontr)
        assume "\<not> nofg (jobs (sh t))"
        with only have "fgpid (jobs (sh t)) = p" by (rule fgpid_of_onlyfg)
        with True p show False by simp
      qed
      with True Waitfg_check tab one show ?thesis by (simp add: defs)
    next
      case False
      with Waitfg_check tab one only show ?thesis by (simp add: defs)
    qed
  next
    case (Waitfg_loop p n)
    with pcok have only: "onlyfg p (jobs (sh t))" by auto
    show ?thesis
    proof (cases "p = fgpid (jobs (sh t))")
      case True
      with Waitfg_loop tab one only show ?thesis by (simp add: defs)
    next
      case False
      have "nofg (jobs (sh t))"
      proof (rule ccontr)
        assume "\<not> nofg (jobs (sh t))"
        with only have "fgpid (jobs (sh t)) = p" by (rule fgpid_of_onlyfg)
        with False show False by simp
      qed
      with False Waitfg_loop tab one show ?thesis by (simp add: defs)
    qed
  next
    case (Waitfg_report p n)
    with tab one pcok show ?thesis by (simp add: defs)
  next
    case (Bgfg_entry a0 args)
    from step_pc_Bgfg_entry_jobs [of c f a0 args "sh t"]
    have j: "jobs (snd (step_pc c f (Bgfg_entry a0 args) (sh t))) = jobs (sh t)"
      and "fst (step_pc c f (Bgfg_entry a0 args) (sh t)) \<in>
        {Prompt} \<union> range (Bgfg_jid_lookup a0) \<union> range (Bgfg_pid_lookup a0)" by simp_all
    then have "pc_ok (fst (step_pc c f (Bgfg_entry a0 args) (sh t))) (jobs (sh t)) (kids t) =
        nofg (jobs (sh t))" by auto
    with Bgfg_entry tab one pcok j show ?thesis by (simp add: sys_inv_def main_step_def)
  next
    case (Bgfg_jid_lookup a0 myjid)
    with tab one pcok show ?thesis by (simp add: defs)
  next
    case (Bgfg_jid_max a0 myjid myjob)
    with tab one pcok show ?thesis by (simp add: defs)
  next
    case (Bgfg_jid_pid a0 myjid myjob)
    with tab one pcok show ?thesis by (cases myjob) (simp_all add: defs)
  next
    case (Bgfg_pid_lookup a0 mypid)
    with tab one pcok show ?thesis by (simp add: defs)
  next
    case (Bgfg_pid_check a0 mypid myjob)
    with tab one pcok show ?thesis by (simp add: defs)
  next
    case (Bgfg_pid_jid a0 mypid myjob)
    with tab one pcok show ?thesis by (cases myjob) (simp_all add: defs)
  next
    case (Bgfg_pid_state a0 myjid i mypid)
    with tab one pcok show ?thesis by (simp add: defs)
  next
    case (Bgfg_mode a0 myjid i mypid)
    with tab one pcok show ?thesis by (simp add: defs)
  next
    case (Fg_set i mypid)
    with pcok have "nofg (jobs (sh t))" by simp
    then have "onefg ((jobs (sh t))[i := (jobs (sh t) ! i)\<lparr>state := FG\<rparr>])"
      using len by (rule nofg_onefg_update)
    with Fg_set table_ok_state_update [OF tab, of i FG] show ?thesis by (simp add: defs)
  next
    case (Fg_cont mypid)
    with tab one pcok show ?thesis by (simp add: defs)
  next
    case Fg_wait
    with tab one fgpid_onlyfg [OF one] show ?thesis by (simp add: defs)
  next
    case (Bg_set myjid i mypid)
    with pcok have "nofg (jobs (sh t))" by simp
    then have "nofg ((jobs (sh t))[i := (jobs (sh t) ! i)\<lparr>state := BG\<rparr>])"
      by (rule nofg_update) simp
    moreover have "onefg ((jobs (sh t))[i := (jobs (sh t) ! i)\<lparr>state := BG\<rparr>])"
      using one by (rule onefg_update) simp
    ultimately show ?thesis
      using Bg_set table_ok_state_update [OF tab, of i BG] by (simp add: defs)
  next
    case (Bg_print myjid i mypid)
    with tab one pcok show ?thesis by (simp add: defs)
  next
    case (Bg_cont mypid)
    with tab one pcok show ?thesis by (simp add: defs)
  next
    case (Exited n)
    with en show ?thesis by simp
  next
    case Crashed
    with en show ?thesis by simp
  qed
qed


lemma is_fork_iff: "is_fork c \<longleftrightarrow> (\<exists>prev fginit cl. c = Eval_fork prev fginit cl)"
  by (cases c) auto

lemma enabled_step: "enabled e t \<Longrightarrow> step t (fire e t)"
proof (cases e)
  case (Main c f)
  assume "enabled e t"
  with Main have h: "\<not> halted (pc t)"
    and g: "is_fork (pc t) \<longrightarrow> f = - 1 \<or> (0 < f \<and> f \<notin> kids t)" by simp_all
  from g have "\<forall>prev fginit cl. pc t = Eval_fork prev fginit cl \<longrightarrow>
      f = - 1 \<or> (0 < f \<and> f \<notin> kids t)" by auto
  with h have "step t (main_step c f t)" by (rule shell_step)
  with Main show ?thesis by simp
next
  case (Chld q)
  assume "enabled e t"
  with Chld have "\<not> halted (pc t)" "SIGCHLD \<notin> sigmask (sh t)"
    "fst ` set q \<subseteq> kids t" "distinct (map fst q)" by auto
  then have "step t (deliver q t)" by (rule chld_step)
  with Chld show ?thesis by simp
qed

lemma exec_reachable:
  "reachable t \<Longrightarrow> exec es t \<noteq> None \<Longrightarrow> reachable (the (exec es t))"
proof (induction es arbitrary: t)
  case Nil
  then show ?case by simp
next
  case (Cons e es)
  from Cons.prems(2) have en: "enabled e t" and ex: "exec es (fire e t) \<noteq> None"
    by (auto split: if_splits)
  from Cons.prems(1) enabled_step [OF en] have "reachable (fire e t)"
    by (rule reachable_step)
  from Cons.IH [OF this ex] en show ?case by simp
qed

lemma initjobs_replicate:
  "initjobs (replicate MAXJOBS \<lparr>pid = 0, jid = 0, state = UNDEF, cmdline = []\<rparr>) =
   replicate MAXJOBS \<lparr>pid = 0, jid = 0, state = UNDEF, cmdline = []\<rparr>"
  by code_simp

lemma sys_inv_init: "sys_inv (init_sys v)"
  by (simp add: sys_inv_def init_sys_def init_shell_def initjobs_replicate table_ok_def
      onefg_def nofg_def)

lemma reachable_sys_inv: "reachable t \<Longrightarrow> sys_inv t"
proof (induction rule: reachable.induct)
  case (reachable_init v)
  show ?case by (rule sys_inv_init)
next
  case (reachable_step t t')
  from reachable_step.hyps(2) reachable_step.IH show ?case
  proof (cases rule: step.cases)
    case (shell_step f c)
    then have "enabled (Main c f) t" by (auto simp: is_fork_iff)
    with reachable_step.IH shell_step show ?thesis by (simp add: inv_main_step)
  next
    case (chld_step q)
    with reachable_step.IH show ?thesis by (simp add: inv_deliver)
  qed
qed

lemma filter_at_most_one:
  assumes "\<forall>i<length xs. \<forall>k<length xs. P (xs ! i) \<and> P (xs ! k) \<longrightarrow> i = k"
  shows "length (filter P xs) \<le> 1"
  using assms
proof (induction xs)
  case Nil
  then show ?case by simp
next
  case (Cons x xs)
  have tl: "\<forall>i<length xs. \<forall>k<length xs. P (xs ! i) \<and> P (xs ! k) \<longrightarrow> i = k"
  proof (intro allI impI)
    fix i k assume "i < length xs" "k < length xs" "P (xs ! i) \<and> P (xs ! k)"
    with Cons.prems have "Suc i = Suc k"
      by (metis Suc_less_eq length_Cons nth_Cons_Suc)
    then show "i = k" by simp
  qed
  show ?case
  proof (cases "P x")
    case False
    with Cons.IH [OF tl] show ?thesis by simp
  next
    case True
    have "filter P xs = []"
    proof (rule ccontr)
      assume "filter P xs \<noteq> []"
      then obtain y where "y \<in> set xs" "P y"
        by (metis filter_False)
      then obtain k where k: "k < length xs" "xs ! k = y"
        by (auto simp: in_set_conv_nth)
      with Cons.prems True \<open>P y\<close> have "0 = Suc k"
        by (metis length_Cons nth_Cons_0 nth_Cons_Suc Suc_less_eq zero_less_Suc)
      then show False by simp
    qed
    with True show ?thesis by simp
  qed
qed

text \<open>
  C1. In every state that the system reaches from the start of the shell, by statements
  of the command loop (launches, \<^verbatim>\<open>fg\<close> and \<^verbatim>\<open>bg\<close> among them) and deliveries of
  SIGCHLD in any order, at most one slot of the job table is in the foreground state,
  and so at most one live job is.
\<close>

theorem at_most_one_foreground_job:
  assumes "reachable t"
  shows "length (filter (\<lambda>j. state j = FG) (jobs (sh t))) \<le> 1 \<and>
         length (filter (\<lambda>j. pid j \<noteq> 0 \<and> state j = FG) (jobs (sh t))) \<le> 1"
proof -
  from assms have inv: "sys_inv t" by (rule reachable_sys_inv)
  then have len: "length (jobs (sh t)) = MAXJOBS" and one: "onefg (jobs (sh t))"
    unfolding sys_inv_def table_ok_def by simp_all
  have a: "length (filter (\<lambda>j. state j = FG) (jobs (sh t))) \<le> 1"
    using one len unfolding onefg_def by (intro filter_at_most_one) simp
  have "length (filter (\<lambda>j. pid j \<noteq> 0 \<and> state j = FG) (jobs (sh t))) \<le> 1"
    using one len unfolding onefg_def by (intro filter_at_most_one) simp
  with a show ?thesis by simp
qed

theorem at_most_one_foreground_job_witness:
  "reachable (the (exec (launch_bg 11 @ launch False 5 @ replicate 5 (Main Blank 0))
                     (init_sys False))) \<and>
   length (filter (\<lambda>j. pid j \<noteq> 0 \<and> state j = FG)
     (jobs (sh (the (exec (launch_bg 11 @ launch False 5 @ replicate 5 (Main Blank 0))
                       (init_sys False)))))) \<le> 1 \<and>
   map state (jobs (sh (the (exec (launch_bg 11 @ launch False 5 @ replicate 5 (Main Blank 0))
                       (init_sys False))))) =
     [BG, FG, UNDEF, UNDEF, UNDEF, UNDEF, UNDEF, UNDEF, UNDEF, UNDEF, UNDEF, UNDEF, UNDEF,
      UNDEF, UNDEF, UNDEF]"
proof -
  let ?es = "launch_bg 11 @ launch False 5 @ replicate 5 (Main Blank 0)"
  have "exec ?es (init_sys False) \<noteq> None" by code_simp
  with reachable_init [of False] have r: "reachable (the (exec ?es (init_sys False)))"
    by (rule exec_reachable)
  have m: "map state (jobs (sh (the (exec ?es (init_sys False))))) =
     [BG, FG, UNDEF, UNDEF, UNDEF, UNDEF, UNDEF, UNDEF, UNDEF, UNDEF, UNDEF, UNDEF, UNDEF,
      UNDEF, UNDEF, UNDEF]" by code_simp
  from at_most_one_foreground_job [OF r] r m show ?thesis by simp
qed


lemma step_blocked:
  assumes "step t u" "SIGCHLD \<in> sigmask (sh t)"
  shows "\<not> halted (pc t) \<and>
         (\<exists>c f. u = main_step c f t \<and>
            (\<forall>prev fginit cl. pc t = Eval_fork prev fginit cl \<longrightarrow>
               f = - 1 \<or> (0 < f \<and> f \<notin> kids t)))"
  using assms by (cases rule: step.cases) auto

text \<open>
  C2, as amended. Take a launch that finds an empty slot in the table, and any three
  steps of the system after the statement that blocks SIGCHLD. SIGCHLD is blocked
  before the fork and stays blocked until the mask is restored, so in these states no
  delivery of SIGCHLD can happen and the three steps are the fork, the call of
  \<^verbatim>\<open>addjob\<close> and the restoring of the saved mask, in this order. The entry of the new
  child is in the table before the mask is restored, and a lookup of its pid succeeds
  in the first state where the handler can run.
\<close>

theorem launch_registers_before_unblocking:
  assumes pc0: "pc t0 = Eval_block fginit cl"
    and len: "length (jobs (sh t0)) = MAXJOBS"
    and free: "\<exists>k<MAXJOBS. pid (jobs (sh t0) ! k) = 0"
    and s2: "step (main_step c f t0) t2" and s3: "step t2 t3" and s4: "step t3 t4"
  shows "pc (main_step c f t0) = Eval_fork (sigmask (sh t0)) fginit cl \<and>
         SIGCHLD \<in> sigmask (sh (main_step c f t0)) \<and>
         (\<forall>q. \<not> enabled (Chld q) (main_step c f t0) \<and> \<not> enabled (Chld q) t2 \<and>
              \<not> enabled (Chld q) t3) \<and>
         (\<exists>p i. 0 < p \<and> p \<notin> kids t0 \<and> i < MAXJOBS \<and> pid (jobs (sh t0) ! i) = 0 \<and>
            pc t2 = Eval_addjob (sigmask (sh t0)) fginit cl p \<and>
            kids t2 = insert p (kids t0) \<and>
            SIGCHLD \<in> sigmask (sh t2) \<and> jobs (sh t2) = jobs (sh t0) \<and>
            pc t3 = Eval_setmask (sigmask (sh t0)) p \<and>
            SIGCHLD \<in> sigmask (sh t3) \<and>
            jobs (sh t3) = (jobs (sh t0))[i := \<lparr>pid = p, jid = nextjid (sh t0),
                              state = (if fginit then FG else BG), cmdline = cl\<rparr>] \<and>
            pc t4 = Eval_getjob p \<and> sigmask (sh t4) = sigmask (sh t0) \<and>
            jobs (sh t4) = jobs (sh t3) \<and> kids t4 = insert p (kids t0) \<and>
            getjobpid (jobs (sh t4)) p \<noteq> None)"
proof -
  let ?t1 = "main_step c f t0"
  let ?prev = "sigmask (sh t0)"
  let ?st = "if fginit then FG else BG"
  have pc1: "pc ?t1 = Eval_fork ?prev fginit cl"
    and sh1: "sh ?t1 = (sh t0)\<lparr>sigmask := ?prev \<union> {SIGCHLD}\<rparr>"
    and k1: "kids ?t1 = kids t0"
    using pc0 by (simp_all add: main_step_def)
  from sh1 have b1: "SIGCHLD \<in> sigmask (sh ?t1)" by simp
  from step_blocked [OF s2 b1] pc1 obtain c2 p where
    t2: "t2 = main_step c2 p ?t1" and g: "p = - 1 \<or> (0 < p \<and> p \<notin> kids ?t1)" by auto
  from s3 have h2: "\<not> halted (pc t2)" by (cases rule: step.cases) auto
  have p: "0 < p" "p \<notin> kids t0"
  proof -
    have "p \<noteq> - 1"
    proof
      assume "p = - 1"
      with t2 pc1 have "pc t2 = Exited 1" by (simp add: main_step_def)
      with h2 show False by simp
    qed
    with g k1 show "0 < p" "p \<notin> kids t0" by auto
  qed
  from t2 pc1 sh1 k1 p have pc2: "pc t2 = Eval_addjob ?prev fginit cl p"
    and sh2: "sh t2 = (sh t0)\<lparr>sigmask := ?prev \<union> {SIGCHLD}\<rparr>"
    and k2: "kids t2 = insert p (kids t0)"
    by (simp_all add: main_step_def)
  from sh2 have b2: "SIGCHLD \<in> sigmask (sh t2)" by simp
  from step_blocked [OF s3 b2] obtain c3 f3 where t3: "t3 = main_step c3 f3 t2" by auto
  from t3 pc2 have pc3: "pc t3 = Eval_setmask ?prev p"
    and sh3: "sh t3 = snd (addjob (sh t2) p ?st cl)"
    and k3: "kids t3 = kids t2"
    by (simp_all add: main_step_def)
  from sh3 b2 have b3: "SIGCHLD \<in> sigmask (sh t3)" by (simp add: addjob_sigmask)
  from free sh2 have free2: "\<exists>k<MAXJOBS. pid (jobs (sh t2) ! k) = 0" by simp
  from p have "1 \<le> p" by simp
  from addjob_free_slot [OF this free2, of ?st cl] sh2 sh3 obtain i where
    i: "i < MAXJOBS" "pid (jobs (sh t0) ! i) = 0"
    and js3: "jobs (sh t3) = (jobs (sh t0))[i := \<lparr>pid = p, jid = nextjid (sh t0),
                              state = ?st, cmdline = cl\<rparr>]"
    by auto
  from step_blocked [OF s4 b3] obtain c4 f4 where t4: "t4 = main_step c4 f4 t3" by auto
  from t4 pc3 have pc4: "pc t4 = Eval_getjob p"
    and sh4: "sh t4 = (sh t3)\<lparr>sigmask := ?prev\<rparr>"
    and k4: "kids t4 = kids t3"
    by (simp_all add: main_step_def)
  have found: "getjobpid (jobs (sh t4)) p \<noteq> None"
  proof
    assume "getjobpid (jobs (sh t4)) p = None"
    from getjobpid_None [OF this p(1)] i(1) have "pid (jobs (sh t4) ! i) \<noteq> p" by simp
    with sh4 js3 len i(1) show False by simp
  qed
  have "\<forall>q. \<not> enabled (Chld q) ?t1 \<and> \<not> enabled (Chld q) t2 \<and> \<not> enabled (Chld q) t3"
    using b1 b2 b3 by simp
  moreover have "\<exists>p i. 0 < p \<and> p \<notin> kids t0 \<and> i < MAXJOBS \<and> pid (jobs (sh t0) ! i) = 0 \<and>
            pc t2 = Eval_addjob (sigmask (sh t0)) fginit cl p \<and>
            kids t2 = insert p (kids t0) \<and>
            SIGCHLD \<in> sigmask (sh t2) \<and> jobs (sh t2) = jobs (sh t0) \<and>
            pc t3 = Eval_setmask (sigmask (sh t0)) p \<and>
            SIGCHLD \<in> sigmask (sh t3) \<and>
            jobs (sh t3) = (jobs (sh t0))[i := \<lparr>pid = p, jid = nextjid (sh t0),
                              state = (if fginit then FG else BG), cmdline = cl\<rparr>] \<and>
            pc t4 = Eval_getjob p \<and> sigmask (sh t4) = sigmask (sh t0) \<and>
            jobs (sh t4) = jobs (sh t3) \<and> kids t4 = insert p (kids t0) \<and>
            getjobpid (jobs (sh t4)) p \<noteq> None"
    using p i pc2 k2 b2 sh2 pc3 b3 js3 pc4 sh4 k4 k3 found
    by (intro exI [of _ p] exI [of _ i]) simp
  ultimately show ?thesis using pc1 b1 by blast
qed

theorem launch_registers_before_unblocking_witness:
  "pc (main_step sleep_fg 0 (init_sys False)) = Eval_block True (''sleep 100'' @ [CHR 0x0A]) \<and>
   step (main_step sleep_fg 0 (main_step sleep_fg 0 (init_sys False)))
        (main_step sleep_fg 5 (main_step sleep_fg 0 (main_step sleep_fg 0 (init_sys False)))) \<and>
   SIGCHLD \<in> sigmask (sh (main_step sleep_fg 0 (main_step sleep_fg 0 (init_sys False)))) \<and>
   sigmask (sh (the (exec (launch False 5) (init_sys False)))) = {} \<and>
   getjobpid (jobs (sh (the (exec (launch False 5) (init_sys False))))) 5 \<noteq> None"
proof -
  let ?t0 = "main_step sleep_fg 0 (init_sys False)"
  let ?t1 = "main_step sleep_fg 0 ?t0"
  let ?t2 = "main_step sleep_fg 5 ?t1"
  let ?t3 = "main_step sleep_fg 5 ?t2"
  let ?t4 = "main_step sleep_fg 5 ?t3"
  have pc0: "pc ?t0 = Eval_block True (''sleep 100'' @ [CHR 0x0A])" by code_simp
  have len: "length (jobs (sh ?t0)) = MAXJOBS" by code_simp
  have "pid (jobs (sh ?t0) ! 0) = 0" by code_simp
  then have free: "\<exists>k<MAXJOBS. pid (jobs (sh ?t0) ! k) = 0" by (intro exI [of _ 0]) simp
  have "enabled (Main sleep_fg 5) ?t1" by code_simp
  from enabled_step [OF this] have s2: "step ?t1 ?t2" by simp
  have "enabled (Main sleep_fg 5) ?t2" by code_simp
  from enabled_step [OF this] have s3: "step ?t2 ?t3" by simp
  have "enabled (Main sleep_fg 5) ?t3" by code_simp
  from enabled_step [OF this] have s4: "step ?t3 ?t4" by simp
  have e: "the (exec (launch False 5) (init_sys False)) = ?t4" by code_simp
  have m0: "sigmask (sh ?t0) = {}" by code_simp
  have pc2: "pc ?t2 = Eval_addjob {} True (''sleep 100'' @ [CHR 0x0A]) 5" by code_simp
  from launch_registers_before_unblocking [OF pc0 len free s2 s3 s4]
  have b: "SIGCHLD \<in> sigmask (sh ?t1)" by blast
  from launch_registers_before_unblocking [OF pc0 len free s2 s3 s4]
  obtain p where "pc ?t2 = Eval_addjob (sigmask (sh ?t0)) True (''sleep 100'' @ [CHR 0x0A]) p"
    and r: "sigmask (sh ?t4) = sigmask (sh ?t0)" "getjobpid (jobs (sh ?t4)) p \<noteq> None"
    by auto
  with pc2 have "p = 5" by simp
  with r m0 have "sigmask (sh ?t4) = {}" "getjobpid (jobs (sh ?t4)) 5 \<noteq> None"
    by simp_all
  with pc0 s2 e b show ?thesis by simp
qed

text \<open>
  On a full table the launch restores the mask although no entry was added: child 117
  exists, SIGCHLD is unblocked, the lookup of 117 finds nothing, and a delivery of
  SIGCHLD for this child dereferences the null pointer.
\<close>

theorem launch_on_full_table_unblocks_unregistered:
  "map_option (\<lambda>t. (pc t, SIGCHLD \<in> sigmask (sh t), 117 \<in> kids t,
                     getjobpid (jobs (sh t)) 117, enabled (Chld [(117, WExited 0)]) t,
                     pc (deliver [(117, WExited 0)] t)))
     (exec (full_table @ launch True 117) (init_sys False)) =
   Some (Eval_getjob 117, False, True, None, True, Crashed)"
  by code_simp

end
